theory Spec2Isabelle
  imports Complex_Main
begin

section \<open>Data model\<close>

text \<open>
  The graph is an external, read-only collaborator of \<^verbatim>\<open>MutableVertexPartition\<close>: the
  class only calls \<^verbatim>\<open>vcount\<close>, \<^verbatim>\<open>is_directed\<close>, \<^verbatim>\<open>node_size\<close>,
  \<^verbatim>\<open>edge_weight\<close>, \<^verbatim>\<open>get_neighbours\<close>, \<^verbatim>\<open>get_neighbour_edges\<close> and
  \<^verbatim>\<open>possible_edges\<close>. Its implementation is not part of the source file, so the graph
  is a record of exactly these observations.

  \<^verbatim>\<open>size_t\<close> values are natural numbers, 64 bits wide. The wrap-around is written out
  where the class can reach it from its arguments alone: in the successor of a community
  id in \<^verbatim>\<open>init_admin\<close> and in the one subtraction of \<^verbatim>\<open>move_node\<close>. Sums of node sizes
  and counts of possible edges are assumed to stay below the word size.

  The edge weights are \<^verbatim>\<open>double\<close> values that the class only adds and halves; they are
  real numbers here, i.e. their rounding is idealised away. The one place where the class
  sends integers through \<^verbatim>\<open>double\<close>, the running total of possible edges in
  \<^verbatim>\<open>move_node\<close>, is modelled with its rounding.
\<close>

datatype neimode = IGRAPH_OUT | IGRAPH_IN | IGRAPH_ALL

record graph =
  vcount :: nat
  is_directed :: bool
  node_size :: "nat \<Rightarrow> nat"
  edge_weight :: "nat \<Rightarrow> real"
  get_neighbours :: "nat \<Rightarrow> neimode \<Rightarrow> nat list"
  get_neighbour_edges :: "nat \<Rightarrow> neimode \<Rightarrow> nat list"
  possible_edges :: "nat \<Rightarrow> nat"

text \<open>
  The fields of \<^verbatim>\<open>MutableVertexPartition\<close>. The leading underscore of the private
  members is dropped; \<^verbatim>\<open>_csize\<close> becomes \<open>csize_vec\<close> because \<^verbatim>\<open>csize\<close> is the
  accessor method.
\<close>

record partition =
  membership :: "nat list"
  community :: "nat set list"
  csize_vec :: "nat list"
  total_weight_in_comm :: "real list"
  total_weight_from_comm :: "real list"
  total_weight_to_comm :: "real list"
  total_weight_in_all_comms :: real
  total_possible_edges_in_all_comms :: int
  empty_communities :: "nat list"
  current_node_cache_community_from :: nat
  current_node_cache_community_to :: nat
  current_node_cache_community_all :: nat
  cached_weight_from_community :: "real list"
  cached_weight_to_community :: "real list"
  cached_weight_all_community :: "real list"
  cached_neigh_comms_from :: "nat list"
  cached_neigh_comms_to :: "nat list"
  cached_neigh_comms_all :: "nat list"

text \<open>
  The three exceptions the class throws (named as in the specification), and the two
  kinds of undefined behaviour of the C++ source that the model turns into values: an
  element access outside a vector, and \<^verbatim>\<open>erase\<close> at an iterator that is not in the
  vector.
\<close>

datatype error =
    InvalidArgument
  | CapacityExceeded
  | InvalidDirection
  | OutOfBounds
  | InvalidErase

section \<open>Operations\<close>

subsection \<open>Vector helpers\<close>

definition add_at :: "real list \<Rightarrow> nat \<Rightarrow> real \<Rightarrow> real list" where
  "add_at xs i a = xs[i := xs ! i + a]"

text \<open>\<^verbatim>\<open>std::vector::resize(n, x)\<close>: keeps the first \<open>n\<close> entries, pads with \<open>x\<close>.\<close>

definition resize :: "nat \<Rightarrow> 'a \<Rightarrow> 'a list \<Rightarrow> 'a list" where
  "resize n x xs = take n xs @ replicate (n - length xs) x"

text \<open>Unsigned subtraction of \<^verbatim>\<open>size_t\<close>, 64 bits wide.\<close>

definition sub_size_t :: "nat \<Rightarrow> nat \<Rightarrow> nat" where
  "sub_size_t a b = (if b \<le> a then a - b else a + 2 ^ 64 - b)"

text \<open>
  \<^verbatim>\<open>erase(std::next(it).base())\<close> for the reverse iterator \<open>it\<close> that the backwards search
  stopped at: removes the last occurrence.
\<close>

definition erase_last :: "nat \<Rightarrow> nat list \<Rightarrow> nat list" where
  "erase_last x xs = rev (remove1 x (rev xs))"

subsection \<open>Accessors\<close>

definition csize :: "partition \<Rightarrow> nat \<Rightarrow> nat" where
  "csize p comm = (if comm < length (csize_vec p) then csize_vec p ! comm else 0)"

definition nb_communities :: "partition \<Rightarrow> nat" where
  "nb_communities p = length (community p)"

subsection \<open>Initialisation\<close>

text \<open>The incident edges of \<open>v\<close> in one direction, as (neighbour, edge) pairs.\<close>

definition incident :: "graph \<Rightarrow> nat \<Rightarrow> neimode \<Rightarrow> (nat \<times> nat) list" where
  "incident g v mode = zip (get_neighbours g v mode) (get_neighbour_edges g v mode)"

text \<open>
  The first loop of \<^verbatim>\<open>init_admin\<close>: one more than the largest community id, where
  \<^verbatim>\<open>_membership[i] + 1\<close> is a \<^verbatim>\<open>size_t\<close> sum that wraps to 0 at the largest value.
\<close>

definition count_comms :: "nat list \<Rightarrow> nat \<Rightarrow> nat" where
  "count_comms m n =
     fold (\<lambda>i nb_comms. if (m ! i + 1) mod 2 ^ 64 > nb_comms then (m ! i + 1) mod 2 ^ 64
                        else nb_comms) [0..<n] 0"

text \<open>The body of the loop over the outgoing edges of \<open>v\<close>.\<close>

definition init_edge :: "graph \<Rightarrow> nat \<Rightarrow> nat \<times> nat \<Rightarrow> partition \<Rightarrow> partition" where
  "init_edge g v_comm ue p =
     (let u = fst ue; e = snd ue;
          u_comm = membership p ! u;
          w = edge_weight g e;
          p1 = p\<lparr>total_weight_from_comm := add_at (total_weight_from_comm p) v_comm w\<rparr>;
          p2 = p1\<lparr>total_weight_to_comm := add_at (total_weight_to_comm p1) u_comm w\<rparr>
      in if v_comm = u_comm
         then (let w' = (if \<not> is_directed g then w / 2 else w)
               in p2\<lparr>total_weight_in_comm := add_at (total_weight_in_comm p2) v_comm w',
                      total_weight_in_all_comms := total_weight_in_all_comms p2 + w'\<rparr>)
         else p2)"

text \<open>The body of the loop over the vertices.\<close>

definition init_vertex :: "graph \<Rightarrow> nat \<Rightarrow> partition \<Rightarrow> partition" where
  "init_vertex g v p =
     (let v_comm = membership p ! v;
          p1 = p\<lparr>community := (community p)[v_comm := insert v (community p ! v_comm)]\<rparr>;
          p2 = p1\<lparr>csize_vec := (csize_vec p1)[v_comm := csize_vec p1 ! v_comm + node_size g v]\<rparr>
      in fold (init_edge g v_comm) (incident g v IGRAPH_OUT) p2)"

text \<open>
  The statements of \<^verbatim>\<open>init_admin\<close>, for a membership whose every id has a slot in the
  vectors that the first loop sized.
\<close>

definition init_admin_body :: "graph \<Rightarrow> partition \<Rightarrow> partition" where
  "init_admin_body g p =
     (let n = vcount g;
          nb_comms = count_comms (membership p) n;
          p1 = p\<lparr>community := replicate nb_comms {},
                 total_weight_in_comm := replicate nb_comms 0,
                 total_weight_from_comm := replicate nb_comms 0,
                 total_weight_to_comm := replicate nb_comms 0,
                 csize_vec := replicate nb_comms 0,
                 current_node_cache_community_from := n + 1,
                 cached_weight_from_community := resize n 0 (cached_weight_from_community p),
                 current_node_cache_community_to := n + 1,
                 cached_weight_to_community := resize n 0 (cached_weight_to_community p),
                 current_node_cache_community_all := n + 1,
                 cached_weight_all_community := resize n 0 (cached_weight_all_community p),
                 total_weight_in_all_comms := 0\<rparr>;
          p2 = fold (init_vertex g) [0..<n] p1
      in p2\<lparr>total_possible_edges_in_all_comms :=
               fold (\<lambda>c acc. acc + int (possible_edges g (csize p2 c))) [0..<nb_comms] 0\<rparr>)"

text \<open>
  \<^verbatim>\<open>init_admin\<close> reads \<^verbatim>\<open>_membership[v]\<close> and indexes \<^verbatim>\<open>community\<close> and \<^verbatim>\<open>_csize\<close> with
  it, without a check. An id whose successor wrapped in the first loop has no slot, and
  the access is out of bounds.
\<close>

definition init_admin :: "graph \<Rightarrow> partition \<Rightarrow> error + partition" where
  "init_admin g p =
     (if vcount g \<le> length (membership p) \<and>
         list_all (\<lambda>v. membership p ! v < count_comms (membership p) (vcount g)) [0..<vcount g]
      then Inr (init_admin_body g p)
      else Inl OutOfBounds)"

text \<open>The members of a freshly allocated object, before a constructor body runs.\<close>

definition fresh :: partition where
  "fresh = \<lparr>membership = [], community = [], csize_vec = [],
            total_weight_in_comm = [], total_weight_from_comm = [], total_weight_to_comm = [],
            total_weight_in_all_comms = 0, total_possible_edges_in_all_comms = 0,
            empty_communities = [],
            current_node_cache_community_from = 0, current_node_cache_community_to = 0,
            current_node_cache_community_all = 0,
            cached_weight_from_community = [], cached_weight_to_community = [],
            cached_weight_all_community = [],
            cached_neigh_comms_from = [], cached_neigh_comms_to = [],
            cached_neigh_comms_all = []\<rparr>"

text \<open>
  \<^verbatim>\<open>MutableVertexPartition(Graph*, vector<size_t> const&)\<close>, reached through
  \<^verbatim>\<open>create(graph, membership)\<close>.
\<close>

definition create :: "graph \<Rightarrow> nat list \<Rightarrow> error + partition" where
  "create g m =
     (if length m \<noteq> vcount g then Inl InvalidArgument
      else init_admin g (fresh\<lparr>membership := m\<rparr>))"

text \<open>\<^verbatim>\<open>MutableVertexPartition(Graph*)\<close>: every vertex in its own community.\<close>

definition create_singletons :: "graph \<Rightarrow> error + partition" where
  "create_singletons g = init_admin g (fresh\<lparr>membership := [0..<vcount g]\<rparr>)"

subsection \<open>The empty-community pool\<close>

text \<open>
  \<^verbatim>\<open>add_empty_community\<close> can throw after it has already changed the object, so it
  returns the object as it is when the call ends, however it ends.
\<close>

definition add_empty_community :: "graph \<Rightarrow> partition \<Rightarrow> (error + nat) \<times> partition" where
  "add_empty_community g p =
     (let p1 = p\<lparr>community := community p @ [{}]\<rparr>;
          nb_comms = length (community p1)
      in if nb_comms > vcount g then (Inl CapacityExceeded, p1)
         else (let new_comm = nb_comms - 1;
                   p2 = p1\<lparr>csize_vec := (resize nb_comms 0 (csize_vec p1))[new_comm := 0],
                          total_weight_in_comm :=
                            (resize nb_comms 0 (total_weight_in_comm p1))[new_comm := 0],
                          total_weight_from_comm :=
                            (resize nb_comms 0 (total_weight_from_comm p1))[new_comm := 0],
                          total_weight_to_comm :=
                            (resize nb_comms 0 (total_weight_to_comm p1))[new_comm := 0],
                          empty_communities := empty_communities p1 @ [new_comm]\<rparr>
               in (Inr new_comm, p2)))"

definition get_empty_community :: "graph \<Rightarrow> partition \<Rightarrow> (error + nat) \<times> partition" where
  "get_empty_community g p =
     (if empty_communities p = []
      then (case add_empty_community g p of
              (Inl err, p') \<Rightarrow> (Inl err, p')
            | (Inr _, p') \<Rightarrow> (Inr (last (empty_communities p')), p'))
      else (Inr (last (empty_communities p)), p))"

subsection \<open>Moving a node\<close>

text \<open>Sequencing of steps that can fail: the first failure ends the call.\<close>

definition and_then :: "error + 'a \<Rightarrow> ('a \<Rightarrow> error + 'b) \<Rightarrow> error + 'b" where
  "and_then r f = (case r of Inl err \<Rightarrow> Inl err | Inr x \<Rightarrow> f x)"

text \<open>
  An integer that passes through a \<^verbatim>\<open>double\<close> is rounded to 53 significant bits, to the
  nearest representable value and to the even one of two nearest (IEEE 754 binary64, the
  default rounding; the exponent range is not reached by 64-bit integers).
\<close>

fun bit_length :: "nat \<Rightarrow> nat" where
  "bit_length n = (if n = 0 then 0 else Suc (bit_length (n div 2)))"

definition double_of_int :: "int \<Rightarrow> int" where
  "double_of_int x =
     (let a = \<bar>x\<bar>;
          e = bit_length (nat a) - 53;
          q = a div 2 ^ e;
          r = a mod 2 ^ e;
          q' = (if 2 * r > 2 ^ e \<or> (2 * r = 2 ^ e \<and> odd q) then q + 1 else q)
      in sgn x * (q' * 2 ^ e))"

text \<open>
  \<^verbatim>\<open>2.0*node_size*(ptrdiff_t)(_csize[new_comm] - _csize[old_comm] + node_size)/(2.0 - is_directed())\<close>,
  a \<^verbatim>\<open>double\<close>: the two factors are converted and the product is rounded. Doubling and
  halving are exact, and the rounded product is even, so the value is an integer. The
  sizes are assumed to stay below \<open>2\<^sup>6\<^sup>3\<close>, so that the cast to \<^verbatim>\<open>ptrdiff_t\<close> gives the
  signed difference.
\<close>

definition delta_possible_edges_in_comms :: "graph \<Rightarrow> nat \<Rightarrow> nat \<Rightarrow> nat \<Rightarrow> int" where
  "delta_possible_edges_in_comms g nsize csize_new csize_old =
     double_of_int
       (2 * double_of_int (int nsize) *
        double_of_int (int csize_new - int csize_old + int nsize))
       div (2 - (if is_directed g then 1 else 0))"

text \<open>
  The first block of \<^verbatim>\<open>move_node\<close>: the running total of possible edges. The compound
  assignment \<^verbatim>\<open>_total_possible_edges_in_all_comms += delta_possible_edges_in_comms\<close> has a
  \<^verbatim>\<open>double\<close> on the right, so the total is converted to \<^verbatim>\<open>double\<close>, the sum is rounded and
  stored back. (The declaration of the member is not part of the source file;
  \<^verbatim>\<open>init_admin\<close> assigns it 0 and adds \<^verbatim>\<open>size_t\<close> values to it, so it is taken to be a
  \<^verbatim>\<open>size_t\<close>. A member of type \<^verbatim>\<open>double\<close> is updated to the same value.)
\<close>

definition update_possible_edges :: "graph \<Rightarrow> nat \<Rightarrow> nat \<Rightarrow> nat \<Rightarrow> partition \<Rightarrow> partition" where
  "update_possible_edges g v old_comm new_comm p =
     (if new_comm \<noteq> old_comm
      then p\<lparr>total_possible_edges_in_all_comms :=
               double_of_int
                 (double_of_int (total_possible_edges_in_all_comms p) +
                  delta_possible_edges_in_comms g (node_size g v)
                    (csize_vec p ! new_comm) (csize_vec p ! old_comm))\<rparr>
      else p)"

text \<open>Remove \<open>v\<close> from its old community; an old community of size 0 joins the pool.\<close>

definition remove_from_old :: "graph \<Rightarrow> nat \<Rightarrow> nat \<Rightarrow> partition \<Rightarrow> partition" where
  "remove_from_old g v old_comm p =
     (let p1 = p\<lparr>community := (community p)[old_comm := community p ! old_comm - {v}]\<rparr>;
          p2 = p1\<lparr>csize_vec :=
                   (csize_vec p1)[old_comm := sub_size_t (csize_vec p1 ! old_comm) (node_size g v)]\<rparr>
      in if csize_vec p2 ! old_comm = 0
         then p2\<lparr>empty_communities := empty_communities p2 @ [old_comm]\<rparr>
         else p2)"

text \<open>
  A new community of size 0 leaves the pool. The backwards search that does not find it
  ends at \<^verbatim>\<open>rend()\<close>, and erasing there is undefined behaviour.
\<close>

definition take_from_pool :: "nat \<Rightarrow> partition \<Rightarrow> error + partition" where
  "take_from_pool new_comm p =
     (if csize_vec p ! new_comm = 0
      then (if new_comm \<in> set (empty_communities p)
            then Inr (p\<lparr>empty_communities := erase_last new_comm (empty_communities p)\<rparr>)
            else Inl InvalidErase)
      else Inr p)"

definition add_to_new :: "graph \<Rightarrow> nat \<Rightarrow> nat \<Rightarrow> partition \<Rightarrow> partition" where
  "add_to_new g v new_comm p =
     (let p1 = p\<lparr>community := (community p)[new_comm := insert v (community p ! new_comm)]\<rparr>
      in p1\<lparr>csize_vec := (csize_vec p1)[new_comm := csize_vec p1 ! new_comm + node_size g v]\<rparr>)"

text \<open>
  The body of the loop over the incident edges of \<open>v\<close>, for one direction: first the
  weight leaving or entering the two communities, then the internal weight.
\<close>

definition switch_link ::
  "graph \<Rightarrow> nat \<Rightarrow> nat \<Rightarrow> neimode \<Rightarrow> nat \<times> nat \<Rightarrow> partition \<Rightarrow> error + partition" where
  "switch_link g old_comm new_comm mode ue p =
     (let w = edge_weight g (snd ue)
      in case mode of
           IGRAPH_OUT \<Rightarrow>
             Inr (p\<lparr>total_weight_from_comm :=
               add_at (add_at (total_weight_from_comm p) old_comm (- w)) new_comm w\<rparr>)
         | IGRAPH_IN \<Rightarrow>
             Inr (p\<lparr>total_weight_to_comm :=
               add_at (add_at (total_weight_to_comm p) old_comm (- w)) new_comm w\<rparr>)
         | IGRAPH_ALL \<Rightarrow> Inl InvalidDirection)"

text \<open>
  \<^verbatim>\<open>w/(is_directed() ? 1.0 : 2.0)/(u == v ? 2.0 : 1.0)\<close>: the internal weight of an incident
  edge, as one of the two directional passes sees it.
\<close>

definition int_weight :: "graph \<Rightarrow> nat \<Rightarrow> nat \<times> nat \<Rightarrow> real" where
  "int_weight g v ue =
     edge_weight g (snd ue) / (if is_directed g then 1 else 2) / (if fst ue = v then 2 else 1)"

definition switch_internal ::
  "graph \<Rightarrow> nat \<Rightarrow> nat \<Rightarrow> nat \<Rightarrow> nat \<times> nat \<Rightarrow> partition \<Rightarrow> partition" where
  "switch_internal g v old_comm new_comm ue p =
     (let u = fst ue;
          u_comm = membership p ! u;
          iw = int_weight g v ue;
          p1 = (if old_comm = u_comm
                then p\<lparr>total_weight_in_comm := add_at (total_weight_in_comm p) old_comm (- iw),
                       total_weight_in_all_comms := total_weight_in_all_comms p - iw\<rparr>
                else p)
      in if new_comm = u_comm \<or> u = v
         then p1\<lparr>total_weight_in_comm := add_at (total_weight_in_comm p1) new_comm iw,
                 total_weight_in_all_comms := total_weight_in_all_comms p1 + iw\<rparr>
         else p1)"

definition move_edge ::
  "graph \<Rightarrow> nat \<Rightarrow> nat \<Rightarrow> nat \<Rightarrow> neimode \<Rightarrow> nat \<times> nat \<Rightarrow> partition \<Rightarrow> error + partition" where
  "move_edge g v old_comm new_comm mode ue p =
     and_then (switch_link g old_comm new_comm mode ue p)
       (\<lambda>p1. Inr (switch_internal g v old_comm new_comm ue p1))"

fun move_edges ::
  "graph \<Rightarrow> nat \<Rightarrow> nat \<Rightarrow> nat \<Rightarrow> neimode \<Rightarrow> (nat \<times> nat) list \<Rightarrow> partition \<Rightarrow> error + partition" where
  "move_edges g v old_comm new_comm mode [] p = Inr p"
| "move_edges g v old_comm new_comm mode (ue # ues) p =
     and_then (move_edge g v old_comm new_comm mode ue p)
       (move_edges g v old_comm new_comm mode ues)"

text \<open>Every vector indexed by a community id has an entry for \<open>c\<close>.\<close>

definition comm_allocated :: "partition \<Rightarrow> nat \<Rightarrow> bool" where
  "comm_allocated p c \<longleftrightarrow>
     c < length (community p) \<and> c < length (csize_vec p) \<and>
     c < length (total_weight_in_comm p) \<and> c < length (total_weight_from_comm p) \<and>
     c < length (total_weight_to_comm p)"

text \<open>
  \<^verbatim>\<open>move_node\<close> indexes its vectors with \<open>v\<close>, the old and the new community without a
  check; outside the vectors that is undefined behaviour, reported here before anything
  else. The neighbours that index the membership vector come from the graph.
\<close>

definition move_node :: "graph \<Rightarrow> nat \<Rightarrow> nat \<Rightarrow> partition \<Rightarrow> error + partition" where
  "move_node g v new_comm p =
     (if v < length (membership p)
      then
       (let old_comm = membership p ! v
        in if comm_allocated p old_comm \<and> comm_allocated p new_comm
           then
             and_then
               (take_from_pool new_comm
                  (remove_from_old g v old_comm (update_possible_edges g v old_comm new_comm p)))
               (\<lambda>p1. and_then
                  (move_edges g v old_comm new_comm IGRAPH_OUT (incident g v IGRAPH_OUT)
                     (add_to_new g v new_comm p1))
               (\<lambda>p2. and_then
                  (move_edges g v old_comm new_comm IGRAPH_IN (incident g v IGRAPH_IN) p2)
               (\<lambda>p3. Inr (p3\<lparr>membership := (membership p3)[v := new_comm]\<rparr>))))
           else Inl OutOfBounds)
      else Inl OutOfBounds)"

text \<open>A sequence of moves, stopping at the first one that fails.\<close>

fun move_nodes :: "graph \<Rightarrow> (nat \<times> nat) list \<Rightarrow> partition \<Rightarrow> error + partition" where
  "move_nodes g [] p = Inr p"
| "move_nodes g (vc # vcs) p =
     and_then (move_node g (fst vc) (snd vc) p) (move_nodes g vcs)"

subsection \<open>Renumbering and reconstruction\<close>

text \<open>
  Modelled from the spec: the comparator \<^verbatim>\<open>pairCompareReverseSecond\<close> that
  \<^verbatim>\<open>renumber_communities\<close> hands to \<^verbatim>\<open>std::sort\<close> is declared outside the source
  file. The specification orders the pairs (size, id) by descending size and breaks ties
  by ascending original id.
\<close>

definition pairCompareReverseSecond :: "nat \<times> nat \<Rightarrow> nat \<times> nat \<Rightarrow> bool" where
  "pairCompareReverseSecond A B \<longleftrightarrow> fst A > fst B \<or> (fst A = fst B \<and> snd A < snd B)"

text \<open>
  \<^verbatim>\<open>std::sort\<close> with a comparator, as an insertion sort. The comparator above is a strict
  total order on pairs with distinct ids, so the sorted sequence is unique and the choice
  of algorithm is not observable.
\<close>

fun insert_sorted :: "('a \<Rightarrow> 'a \<Rightarrow> bool) \<Rightarrow> 'a \<Rightarrow> 'a list \<Rightarrow> 'a list" where
  "insert_sorted lt x [] = [x]"
| "insert_sorted lt x (y # ys) = (if lt x y then x # y # ys else y # insert_sorted lt x ys)"

definition sort_with :: "('a \<Rightarrow> 'a \<Rightarrow> bool) \<Rightarrow> 'a list \<Rightarrow> 'a list" where
  "sort_with lt xs = foldr (insert_sorted lt) xs []"

definition clean_mem :: "partition \<Rightarrow> partition" where
  "clean_mem p = p\<lparr>community := []\<rparr>"

text \<open>The vector \<^verbatim>\<open>csizes\<close> of (size, id) pairs of \<^verbatim>\<open>renumber_communities()\<close>, sorted.\<close>

definition sorted_csizes :: "partition \<Rightarrow> (nat \<times> nat) list" where
  "sorted_csizes p =
     sort_with pairCompareReverseSecond (map (\<lambda>i. (csize p i, i)) [0..<nb_communities p])"

text \<open>The table \<^verbatim>\<open>new_comm_id\<close> that \<^verbatim>\<open>renumber_communities()\<close> builds.\<close>

definition new_comm_id :: "partition \<Rightarrow> nat list" where
  "new_comm_id p =
     (let nb_comms = nb_communities p;
          csizes = sorted_csizes p
      in fold (\<lambda>i ids. ids[snd (csizes ! i) := i]) [0..<nb_comms] (replicate nb_comms 0))"

definition renumber_communities :: "graph \<Rightarrow> partition \<Rightarrow> error + partition" where
  "renumber_communities g p =
     (let ids = new_comm_id p
      in if vcount g \<le> length (membership p) \<and>
            list_all (\<lambda>i. membership p ! i < length ids) [0..<vcount g]
         then
          (let p1 = p\<lparr>membership :=
                       fold (\<lambda>i m. m[i := ids ! (m ! i)]) [0..<vcount g] (membership p)\<rparr>
           in init_admin g (clean_mem p1))
         else Inl OutOfBounds)"

text \<open>\<^verbatim>\<open>renumber_communities(vector<size_t> const& new_membership)\<close>.\<close>

definition renumber_communities_membership ::
  "graph \<Rightarrow> nat list \<Rightarrow> partition \<Rightarrow> error + partition" where
  "renumber_communities_membership g new_membership p =
     (if vcount g \<le> length (membership p) \<and> vcount g \<le> length new_membership
      then
       (let p1 = p\<lparr>membership :=
                    fold (\<lambda>i m. m[i := new_membership ! i]) [0..<vcount g] (membership p)\<rparr>
        in init_admin g (clean_mem p1))
      else Inl OutOfBounds)"

text \<open>
  \<^verbatim>\<open>from_coarser_partition(coarser_partition_membership, coarser_node)\<close>. The one-argument
  overload passes the object's own membership as \<open>coarser_node\<close>; entry \<open>v\<close> is read before
  it is overwritten, so the aliasing is not observable.
\<close>

definition from_coarser_partition ::
  "graph \<Rightarrow> nat list \<Rightarrow> nat list \<Rightarrow> partition \<Rightarrow> error + partition" where
  "from_coarser_partition g coarser_partition_membership coarser_node p =
     (if vcount g \<le> length (membership p) \<and> vcount g \<le> length coarser_node \<and>
         list_all (\<lambda>v. coarser_node ! v < length coarser_partition_membership) [0..<vcount g]
      then
       (let p1 = p\<lparr>membership :=
                    fold (\<lambda>v m. m[v := coarser_partition_membership ! (coarser_node ! v)])
                      [0..<vcount g] (membership p)\<rparr>
        in init_admin g (clean_mem p1))
      else Inl OutOfBounds)"

definition from_coarser_partition_own :: "graph \<Rightarrow> nat list \<Rightarrow> partition \<Rightarrow> error + partition" where
  "from_coarser_partition_own g coarser_partition_membership p =
     from_coarser_partition g coarser_partition_membership (membership p) p"

subsection \<open>The neighbour-community cache\<close>

definition cache_reset :: "nat list \<Rightarrow> real list \<Rightarrow> real list" where
  "cache_reset neighs cw = fold (\<lambda>it cw'. cw'[it := 0]) neighs cw"

text \<open>The weight an incident edge contributes to the cache.\<close>

definition cache_weight :: "graph \<Rightarrow> nat \<Rightarrow> nat \<times> nat \<Rightarrow> real" where
  "cache_weight g v ue =
     (let w = edge_weight g (snd ue)
      in if fst ue = v \<and> \<not> is_directed g then w / 2 else w)"

definition cache_edge ::
  "graph \<Rightarrow> nat \<Rightarrow> nat list \<Rightarrow> nat \<times> nat \<Rightarrow> real list \<times> nat list \<Rightarrow> real list \<times> nat list" where
  "cache_edge g v m ue st =
     (let comm = m ! fst ue;
          cw = add_at (fst st) comm (cache_weight g v ue)
      in (cw, if cw ! comm \<noteq> 0 then snd st @ [comm] else snd st))"

text \<open>
  The work of \<^verbatim>\<open>cache_neigh_communities\<close> on the pair of vectors the \<open>mode\<close> selects. A
  stale id or a neighbour's community outside the weight vector is an access out of
  bounds.
\<close>

definition cache_fill ::
  "graph \<Rightarrow> nat \<Rightarrow> neimode \<Rightarrow> nat list \<Rightarrow> real list \<Rightarrow> nat list \<Rightarrow> error + real list \<times> nat list" where
  "cache_fill g v mode m cw neighs =
     (let es = incident g v mode
      in if list_all (\<lambda>it. it < length cw) neighs \<and>
            list_all (\<lambda>ue. fst ue < length m \<and> m ! fst ue < length cw) es
         then Inr (fold (cache_edge g v m) es (cache_reset neighs cw, []))
         else Inl OutOfBounds)"

definition cache_neigh_communities :: "graph \<Rightarrow> nat \<Rightarrow> neimode \<Rightarrow> partition \<Rightarrow> error + partition" where
  "cache_neigh_communities g v mode p =
     (case mode of
        IGRAPH_IN \<Rightarrow>
          (case cache_fill g v mode (membership p)
                  (cached_weight_from_community p) (cached_neigh_comms_from p) of
             Inl err \<Rightarrow> Inl err
           | Inr r \<Rightarrow> Inr (p\<lparr>cached_weight_from_community := fst r,
                              cached_neigh_comms_from := snd r\<rparr>))
      | IGRAPH_OUT \<Rightarrow>
          (case cache_fill g v mode (membership p)
                  (cached_weight_to_community p) (cached_neigh_comms_to p) of
             Inl err \<Rightarrow> Inl err
           | Inr r \<Rightarrow> Inr (p\<lparr>cached_weight_to_community := fst r,
                              cached_neigh_comms_to := snd r\<rparr>))
      | IGRAPH_ALL \<Rightarrow>
          (case cache_fill g v mode (membership p)
                  (cached_weight_all_community p) (cached_neigh_comms_all p) of
             Inl err \<Rightarrow> Inl err
           | Inr r \<Rightarrow> Inr (p\<lparr>cached_weight_all_community := fst r,
                              cached_neigh_comms_all := snd r\<rparr>)))"

definition weight_to_comm :: "graph \<Rightarrow> nat \<Rightarrow> nat \<Rightarrow> partition \<Rightarrow> error + real \<times> partition" where
  "weight_to_comm g v comm p =
     (case (if current_node_cache_community_to p \<noteq> v
            then (case cache_neigh_communities g v IGRAPH_OUT p of
                    Inl err \<Rightarrow> Inl err
                  | Inr p1 \<Rightarrow> Inr (p1\<lparr>current_node_cache_community_to := v\<rparr>))
            else Inr p) of
        Inl err \<Rightarrow> Inl err
      | Inr p2 \<Rightarrow>
          (if comm < length (cached_weight_to_community p2)
           then Inr (cached_weight_to_community p2 ! comm, p2)
           else Inl OutOfBounds))"

definition weight_from_comm :: "graph \<Rightarrow> nat \<Rightarrow> nat \<Rightarrow> partition \<Rightarrow> error + real \<times> partition" where
  "weight_from_comm g v comm p =
     (case (if current_node_cache_community_from p \<noteq> v
            then (case cache_neigh_communities g v IGRAPH_IN p of
                    Inl err \<Rightarrow> Inl err
                  | Inr p1 \<Rightarrow> Inr (p1\<lparr>current_node_cache_community_from := v\<rparr>))
            else Inr p) of
        Inl err \<Rightarrow> Inl err
      | Inr p2 \<Rightarrow>
          (if comm < length (cached_weight_from_community p2)
           then Inr (cached_weight_from_community p2 ! comm, p2)
           else Inl OutOfBounds))"

section \<open>Specification vocabulary\<close>

text \<open>
  The contract of the graph provider: every neighbour it reports is a vertex.
\<close>

definition graph_ok :: "graph \<Rightarrow> bool" where
  "graph_ok g \<longleftrightarrow>
     (\<forall>v mode. \<forall>u \<in> set (get_neighbours g v mode). u < vcount g)"

text \<open>
  Modelled from the spec: \<^verbatim>\<open>Graph::possible_edges\<close> is not part of the source file. The
  specification calls it the direction-aware maximum number of edges of a group of size
  \<open>n\<close>, and the comment in \<^verbatim>\<open>move_node\<close> names the two conventions \<open>n\<^sup>2\<close> and
  \<open>n (n - 1)\<close>, with or without self-loops.
\<close>

definition possible_edges_formula :: "bool \<Rightarrow> bool \<Rightarrow> nat \<Rightarrow> nat" where
  "possible_edges_formula directed self_loops n =
     (let pe = n * (n - 1);
          pe' = (if directed then pe else pe div 2)
      in if self_loops then pe' + n else pe')"

text \<open>The sum of all node sizes.\<close>

definition total_size :: "graph \<Rightarrow> nat" where
  "total_size g = (\<Sum>v<vcount g. node_size g v)"

text \<open>The consistency of the data model: what membership, member sets and sizes are.\<close>

definition partition_ok :: "graph \<Rightarrow> partition \<Rightarrow> bool" where
  "partition_ok g p \<longleftrightarrow>
     length (membership p) = vcount g \<and>
     length (csize_vec p) = length (community p) \<and>
     length (total_weight_in_comm p) = length (community p) \<and>
     length (total_weight_from_comm p) = length (community p) \<and>
     length (total_weight_to_comm p) = length (community p) \<and>
     (\<forall>v < vcount g. membership p ! v < length (community p)) \<and>
     (\<forall>c < length (community p).
        community p ! c = {v. v < vcount g \<and> membership p ! v = c} \<and>
        csize_vec p ! c = (\<Sum>v | v < vcount g \<and> membership p ! v = c. node_size g v))"

text \<open>
  What one incident edge of \<open>v\<close> changes when \<open>v\<close> moves from \<open>old_comm\<close> to \<open>new_comm\<close> under
  the membership \<open>m\<close>: in the directional weight of community \<open>c\<close>, in its internal weight,
  and in the total internal weight.
\<close>

definition link_gain :: "nat \<Rightarrow> nat \<Rightarrow> real \<Rightarrow> nat \<Rightarrow> real" where
  "link_gain old_comm new_comm w c =
     (if c = new_comm then w else 0) - (if c = old_comm then w else 0)"

definition internal_gain ::
  "graph \<Rightarrow> nat \<Rightarrow> nat \<Rightarrow> nat \<Rightarrow> nat list \<Rightarrow> nat \<times> nat \<Rightarrow> nat \<Rightarrow> real" where
  "internal_gain g v old_comm new_comm m ue c =
     (if (new_comm = m ! fst ue \<or> fst ue = v) \<and> c = new_comm then int_weight g v ue else 0) -
     (if old_comm = m ! fst ue \<and> c = old_comm then int_weight g v ue else 0)"

definition total_internal_gain ::
  "graph \<Rightarrow> nat \<Rightarrow> nat \<Rightarrow> nat \<Rightarrow> nat list \<Rightarrow> nat \<times> nat \<Rightarrow> real" where
  "total_internal_gain g v old_comm new_comm m ue =
     (if new_comm = m ! fst ue \<or> fst ue = v then int_weight g v ue else 0) -
     (if old_comm = m ! fst ue then int_weight g v ue else 0)"

text \<open>The loop over the incident edges of one direction, in closed form.\<close>

definition edges_moved ::
  "graph \<Rightarrow> nat \<Rightarrow> nat \<Rightarrow> nat \<Rightarrow> neimode \<Rightarrow> (nat \<times> nat) list \<Rightarrow> partition \<Rightarrow> partition" where
  "edges_moved g v old_comm new_comm mode es p =
     p\<lparr>total_weight_in_comm :=
         map (\<lambda>c. total_weight_in_comm p ! c +
                  (\<Sum>ue\<leftarrow>es. internal_gain g v old_comm new_comm (membership p) ue c))
           [0..<length (total_weight_in_comm p)],
       total_weight_from_comm :=
         map (\<lambda>c. total_weight_from_comm p ! c +
                  (if mode = IGRAPH_OUT
                   then (\<Sum>ue\<leftarrow>es. link_gain old_comm new_comm (edge_weight g (snd ue)) c)
                   else 0))
           [0..<length (total_weight_from_comm p)],
       total_weight_to_comm :=
         map (\<lambda>c. total_weight_to_comm p ! c +
                  (if mode = IGRAPH_IN
                   then (\<Sum>ue\<leftarrow>es. link_gain old_comm new_comm (edge_weight g (snd ue)) c)
                   else 0))
           [0..<length (total_weight_to_comm p)],
       total_weight_in_all_comms :=
         total_weight_in_all_comms p +
         (\<Sum>ue\<leftarrow>es. total_internal_gain g v old_comm new_comm (membership p) ue)\<rparr>"

text \<open>
  \<^verbatim>\<open>move_node\<close> in closed form, for the calls in which every access is in bounds and the
  new community, if empty, is found in the pool.
\<close>

definition taken_from_pool :: "nat \<Rightarrow> partition \<Rightarrow> partition" where
  "taken_from_pool new_comm p =
     (if csize_vec p ! new_comm = 0
      then p\<lparr>empty_communities := erase_last new_comm (empty_communities p)\<rparr>
      else p)"

definition node_moved :: "graph \<Rightarrow> nat \<Rightarrow> nat \<Rightarrow> partition \<Rightarrow> partition" where
  "node_moved g v new_comm p =
     (let old_comm = membership p ! v;
          p1 = taken_from_pool new_comm
                 (remove_from_old g v old_comm (update_possible_edges g v old_comm new_comm p));
          p2 = edges_moved g v old_comm new_comm IGRAPH_OUT (incident g v IGRAPH_OUT)
                 (add_to_new g v new_comm p1);
          p3 = edges_moved g v old_comm new_comm IGRAPH_IN (incident g v IGRAPH_IN) p2
      in p3\<lparr>membership := (membership p3)[v := new_comm]\<rparr>)"

text \<open>
  The direct recomputation of the weight between \<open>v\<close> and community \<open>c\<close>: the sum over
  the incident edges of \<open>v\<close> in the direction \<open>mode\<close> whose other endpoint is in \<open>c\<close>, a
  self-loop of an undirected graph counted with half its weight.
\<close>

definition direct_weight :: "graph \<Rightarrow> neimode \<Rightarrow> nat list \<Rightarrow> nat \<Rightarrow> nat \<Rightarrow> real" where
  "direct_weight g mode m v c =
     (\<Sum>ue \<leftarrow> zip (get_neighbours g v mode) (get_neighbour_edges g v mode).
        if m ! fst ue = c
        then (if fst ue = v \<and> \<not> is_directed g
              then edge_weight g (snd ue) / 2 else edge_weight g (snd ue))
        else 0)"

text \<open>
  The bookkeeping of one cache: the weight vector has one entry per vertex, and every
  entry that is not zero is listed among the touched communities.
\<close>

definition cache_ok :: "nat \<Rightarrow> real list \<Rightarrow> nat list \<Rightarrow> bool" where
  "cache_ok n cw neighs \<longleftrightarrow>
     length cw = n \<and> (\<forall>c \<in> set neighs. c < n) \<and> (\<forall>c < n. cw ! c \<noteq> 0 \<longrightarrow> c \<in> set neighs)"

definition caches_ok :: "graph \<Rightarrow> partition \<Rightarrow> bool" where
  "caches_ok g p \<longleftrightarrow>
     cache_ok (vcount g) (cached_weight_from_community p) (cached_neigh_comms_from p) \<and>
     cache_ok (vcount g) (cached_weight_to_community p) (cached_neigh_comms_to p) \<and>
     cache_ok (vcount g) (cached_weight_all_community p) (cached_neigh_comms_all p)"

text \<open>
  Every community id in use is below the vertex count, as it is when the communities are
  numbered consecutively (the assumption stated in \<^verbatim>\<open>init_admin\<close>).
\<close>

definition ids_below_vcount :: "graph \<Rightarrow> partition \<Rightarrow> bool" where
  "ids_below_vcount g p \<longleftrightarrow>
     length (membership p) = vcount g \<and> (\<forall>u < vcount g. membership p ! u < vcount g)"

text \<open>
  The states in which every allocated community id is a safe argument of the weight
  queries: the ids in use and the number of slots do not exceed the vertex count.
\<close>

definition safe_state :: "graph \<Rightarrow> partition \<Rightarrow> bool" where
  "safe_state g p \<longleftrightarrow>
     ids_below_vcount g p \<and> caches_ok g p \<and> nb_communities p \<le> vcount g"

section \<open>Example graphs\<close>

text \<open>Two vertices joined by one undirected edge of weight 1.\<close>

definition ex_graph :: graph where
  "ex_graph =
     \<lparr>vcount = 2, is_directed = False, node_size = (\<lambda>v. 1), edge_weight = (\<lambda>e. 1),
      get_neighbours = (\<lambda>v mode. if v = 0 then [1] else if v = 1 then [0] else []),
      get_neighbour_edges = (\<lambda>v mode. if v < 2 then [0] else []),
      possible_edges = possible_edges_formula False False\<rparr>"

text \<open>Three isolated vertices, the middle one of size 0.\<close>

definition ex_sizes :: graph where
  "ex_sizes =
     \<lparr>vcount = 3, is_directed = False, node_size = (\<lambda>v. if v = 1 then 0 else 1),
      edge_weight = (\<lambda>e. 1),
      get_neighbours = (\<lambda>v mode. []), get_neighbour_edges = (\<lambda>v mode. []),
      possible_edges = possible_edges_formula False False\<rparr>"

text \<open>Four isolated vertices, vertex 1 of size 0.\<close>

definition ex_four :: graph where
  "ex_four =
     \<lparr>vcount = 4, is_directed = False, node_size = (\<lambda>v. if v = 1 then 0 else 1),
      edge_weight = (\<lambda>e. 1),
      get_neighbours = (\<lambda>v mode. []), get_neighbour_edges = (\<lambda>v mode. []),
      possible_edges = possible_edges_formula False False\<rparr>"

text \<open>The singleton partition of \<open>ex_four\<close>.\<close>

definition ex_four_single :: partition where
  "ex_four_single =
     \<lparr>membership = [0, 1, 2, 3], community = [{0}, {1}, {2}, {3}], csize_vec = [1, 0, 1, 1],
      total_weight_in_comm = [0, 0, 0, 0], total_weight_from_comm = [0, 0, 0, 0],
      total_weight_to_comm = [0, 0, 0, 0], total_weight_in_all_comms = 0,
      total_possible_edges_in_all_comms = 0, empty_communities = [],
      current_node_cache_community_from = 5, current_node_cache_community_to = 5,
      current_node_cache_community_all = 5,
      cached_weight_from_community = [0, 0, 0, 0], cached_weight_to_community = [0, 0, 0, 0],
      cached_weight_all_community = [0, 0, 0, 0],
      cached_neigh_comms_from = [], cached_neigh_comms_to = [], cached_neigh_comms_all = []\<rparr>"

text \<open>
  The singleton partition of \<open>ex_four\<close> after \<^verbatim>\<open>move_node(0, 3)\<close> and \<^verbatim>\<open>move_node(2, 3)\<close>:
  communities 0 and 2 are empty and in the pool, community 1 holds vertex 1 and has size 0.
\<close>

definition ex_four_moved :: partition where
  "ex_four_moved =
     ex_four_single\<lparr>membership := [3, 1, 3, 3], community := [{}, {1}, {}, {0, 2, 3}],
                     csize_vec := [0, 0, 0, 3], total_possible_edges_in_all_comms := 3,
                     empty_communities := [0, 2]\<rparr>"

text \<open>
  Two vertices of size 94906267 and no edge. The square of the size is just above \<open>2\<^sup>5\<^sup>3\<close>.
\<close>

definition ex_big :: graph where
  "ex_big =
     \<lparr>vcount = 2, is_directed = False, node_size = (\<lambda>v. 94906267),
      edge_weight = (\<lambda>e. 1),
      get_neighbours = (\<lambda>v mode. []), get_neighbour_edges = (\<lambda>v mode. []),
      possible_edges = possible_edges_formula False False\<rparr>"

text \<open>The singleton partition of \<open>ex_big\<close>.\<close>

definition ex_big_single :: partition where
  "ex_big_single =
     \<lparr>membership = [0, 1], community = [{0}, {1}], csize_vec = [94906267, 94906267],
      total_weight_in_comm = [0, 0], total_weight_from_comm = [0, 0],
      total_weight_to_comm = [0, 0], total_weight_in_all_comms = 0,
      total_possible_edges_in_all_comms = 9007199420969022, empty_communities = [],
      current_node_cache_community_from = 3, current_node_cache_community_to = 3,
      current_node_cache_community_all = 3,
      cached_weight_from_community = [0, 0], cached_weight_to_community = [0, 0],
      cached_weight_all_community = [0, 0],
      cached_neigh_comms_from = [], cached_neigh_comms_to = [], cached_neigh_comms_all = []\<rparr>"

text \<open>
  Two vertices, undirected: a self-loop of weight 2 at vertex 0 (edge 0, which the
  adjacency of vertex 0 lists twice) and an edge of weight 3 between 0 and 1 (edge 1).
\<close>

definition ex_loop :: graph where
  "ex_loop =
     \<lparr>vcount = 2, is_directed = False, node_size = (\<lambda>v. 1),
      edge_weight = (\<lambda>e. if e = 0 then 2 else 3),
      get_neighbours = (\<lambda>v mode. if v = 0 then [0, 0, 1] else if v = 1 then [0] else []),
      get_neighbour_edges = (\<lambda>v mode. if v = 0 then [0, 0, 1] else if v = 1 then [1] else []),
      possible_edges = possible_edges_formula False False\<rparr>"

text \<open>The singleton partition of \<open>ex_graph\<close>.\<close>

definition ex_single :: partition where
  "ex_single =
     \<lparr>membership = [0, 1], community = [{0}, {1}], csize_vec = [1, 1],
      total_weight_in_comm = [0, 0], total_weight_from_comm = [1, 1],
      total_weight_to_comm = [1, 1], total_weight_in_all_comms = 0,
      total_possible_edges_in_all_comms = 0, empty_communities = [],
      current_node_cache_community_from = 3, current_node_cache_community_to = 3,
      current_node_cache_community_all = 3,
      cached_weight_from_community = [0, 0], cached_weight_to_community = [0, 0],
      cached_weight_all_community = [0, 0],
      cached_neigh_comms_from = [], cached_neigh_comms_to = [], cached_neigh_comms_all = []\<rparr>"

text \<open>
  The singleton partition of \<open>ex_graph\<close> after \<^verbatim>\<open>move_node(0, 1)\<close>: both vertices in
  community 1, community 0 empty and in the pool.
\<close>

definition ex_merged :: partition where
  "ex_merged =
     \<lparr>membership = [1, 1], community = [{}, {0, 1}], csize_vec = [0, 2],
      total_weight_in_comm = [0, 1], total_weight_from_comm = [0, 2],
      total_weight_to_comm = [0, 2], total_weight_in_all_comms = 1,
      total_possible_edges_in_all_comms = 1, empty_communities = [0],
      current_node_cache_community_from = 3, current_node_cache_community_to = 3,
      current_node_cache_community_all = 3,
      cached_weight_from_community = [0, 0], cached_weight_to_community = [0, 0],
      cached_weight_all_community = [0, 0],
      cached_neigh_comms_from = [], cached_neigh_comms_to = [], cached_neigh_comms_all = []\<rparr>"

section \<open>Evaluating the examples\<close>

lemma upt_0_2: "[0..<2] = [0, 1]"
  by (simp add: upt_rec)

lemma upt_0_3: "[0..<3] = [0, 1, 2]"
  by (simp add: upt_rec)

lemma replicate_2: "replicate 2 x = [x, x]"
  by (simp add: numeral_2_eq_2)

lemma replicate_3: "replicate 3 x = [x, x, x]"
  by (simp add: numeral_3_eq_3)

lemma upt_0_4: "[0..<4] = [0, 1, 2, 3]"
  by (simp add: upt_rec)

lemma replicate_4: "replicate 4 x = [x, x, x, x]"
  by (simp add: eval_nat_numeral)

lemmas init_eval = init_admin_def init_admin_body_def count_comms_def fresh_def init_vertex_def
  init_edge_def incident_def Let_def resize_def add_at_def csize_def clean_mem_def
  possible_edges_formula_def upt_0_2 upt_0_3 replicate_2 replicate_3

lemma bit_length_less: "n < 2 ^ k \<Longrightarrow> bit_length n \<le> k"
proof (induction k arbitrary: n)
  case 0
  then show ?case by simp
next
  case (Suc k)
  show ?case
  proof (cases "n = 0")
    case True
    then show ?thesis by simp
  next
    case False
    have "n div 2 < 2 ^ k" using Suc.prems by simp
    then have "bit_length (n div 2) \<le> k" by (rule Suc.IH)
    then show ?thesis using False by (subst bit_length.simps) simp
  qed
qed

declare bit_length.simps [simp del]

lemma double_of_int_exact: "\<bar>x\<bar> < 2 ^ 53 \<Longrightarrow> double_of_int x = x"
proof -
  assume a: "\<bar>x\<bar> < 2 ^ 53"
  then have "nat \<bar>x\<bar> < 2 ^ 53" by simp
  then have "bit_length (nat \<bar>x\<bar>) - 53 = 0"
    using bit_length_less [of "nat \<bar>x\<bar>" 53] by simp
  then show ?thesis
    by (simp add: double_of_int_def Let_def mult_sgn_abs)
qed

lemma double_of_int_small [simp]:
  "double_of_int 0 = 0" "double_of_int 1 = 1" "double_of_int 2 = 2" "double_of_int 4 = 4"
  "double_of_int (- 2) = - 2" "double_of_int (- 1) = - 1"
  by (simp_all add: double_of_int_exact)

lemmas move_eval = move_node_def comm_allocated_def and_then_def update_possible_edges_def
  remove_from_old_def take_from_pool_def add_to_new_def move_edge_def switch_link_def
  switch_internal_def int_weight_def incident_def erase_last_def
  delta_possible_edges_in_comms_def sub_size_t_def add_at_def Let_def

lemma ex_singletons: "create_singletons ex_graph = Inr ex_single"
  by (simp add: create_singletons_def ex_single_def ex_graph_def init_eval)

lemma ex_move_0_1: "move_node ex_graph 0 1 ex_single = Inr ex_merged"
  unfolding ex_single_def ex_merged_def
  by (simp add: move_eval ex_graph_def insert_commute)

lemma ex_merged_new_comm_id: "new_comm_id ex_merged = [1, 0]"
  by (simp add: ex_merged_def new_comm_id_def sorted_csizes_def nb_communities_def sort_with_def
      pairCompareReverseSecond_def upt_0_2 replicate_2 csize_def)

lemma ex_merged_renumber_step:
  "renumber_communities ex_graph ex_merged =
     Inr (init_admin_body ex_graph (clean_mem (ex_merged\<lparr>membership := [0, 0]\<rparr>)))"
  unfolding renumber_communities_def ex_merged_new_comm_id
  by (simp add: ex_merged_def ex_graph_def upt_0_2 init_admin_def count_comms_def clean_mem_def)

lemma ex_merged_reinit:
  "init_admin_body ex_graph (clean_mem (ex_merged\<lparr>membership := [0, 0]\<rparr>)) =
     \<lparr>membership = [0, 0], community = [{0, 1}], csize_vec = [2],
      total_weight_in_comm = [1], total_weight_from_comm = [2],
      total_weight_to_comm = [2], total_weight_in_all_comms = 1,
      total_possible_edges_in_all_comms = 1, empty_communities = [0],
      current_node_cache_community_from = 3, current_node_cache_community_to = 3,
      current_node_cache_community_all = 3,
      cached_weight_from_community = [0, 0], cached_weight_to_community = [0, 0],
      cached_weight_all_community = [0, 0],
      cached_neigh_comms_from = [], cached_neigh_comms_to = [], cached_neigh_comms_all = []\<rparr>"
  by (simp add: ex_merged_def ex_graph_def init_eval insert_commute)

section \<open>Initialisation establishes the data model\<close>

lemma count_comms_Suc:
  "count_comms m (Suc n) = max (count_comms m n) ((m ! n + 1) mod 2 ^ 64)"
  by (simp add: count_comms_def max_def)

lemma count_comms_fit:
  "\<forall>i<n. m ! i < 2 ^ 64 - 1 \<Longrightarrow> i < n \<Longrightarrow> m ! i < count_comms m n"
proof (induction n)
  case 0
  then show ?case by simp
next
  case (Suc n)
  have "m ! n + 1 < 2 ^ 64" using Suc.prems(1) by simp
  then have w: "(m ! n + 1) mod 2 ^ 64 = m ! n + 1" by simp
  show ?case
  proof (cases "i = n")
    case True
    then show ?thesis unfolding count_comms_Suc w by simp
  next
    case False
    then have "m ! i < count_comms m n" using Suc by simp
    then show ?thesis unfolding count_comms_Suc by simp
  qed
qed

lemma count_comms_attained:
  "count_comms m n = 0 \<or> (\<exists>i<n. count_comms m n = (m ! i + 1) mod 2 ^ 64)"
proof (induction n)
  case 0
  then show ?case by (simp add: count_comms_def)
next
  case (Suc n)
  then show ?case
    unfolding count_comms_Suc max_def by (auto simp: less_Suc_eq)
qed

lemma count_comms_successor:
  assumes "\<forall>i<n. m ! i < count_comms m n"
  shows "count_comms m n = 0 \<or> (\<exists>i<n. count_comms m n = m ! i + 1)"
proof -
  from count_comms_attained [of m n] show ?thesis
  proof
    assume "count_comms m n = 0"
    then show ?thesis by simp
  next
    assume "\<exists>i<n. count_comms m n = (m ! i + 1) mod 2 ^ 64"
    then obtain i where i: "i < n" "count_comms m n = (m ! i + 1) mod 2 ^ 64" by blast
    have "m ! i < (m ! i + 1) mod 2 ^ 64" using assms i by auto
    moreover have "(m ! i + 1) mod 2 ^ 64 \<le> m ! i + 1" by (rule mod_less_eq_dividend)
    ultimately have "(m ! i + 1) mod 2 ^ 64 = m ! i + 1" by simp
    then show ?thesis using i by auto
  qed
qed

lemma count_comms_word: "count_comms m n < 2 ^ 64"
  using count_comms_attained [of m n] by auto

lemma sum_members_Suc:
  "(\<Sum>v | v < Suc k \<and> m ! v = c. f v) =
     (\<Sum>v | v < k \<and> m ! v = c. f v) + (if m ! k = c then f k else (0::nat))"
proof -
  have fin: "finite {v. v < k \<and> m ! v = c}" by simp
  show ?thesis
  proof (cases "m ! k = c")
    case True
    then have "{v. v < Suc k \<and> m ! v = c} = insert k {v. v < k \<and> m ! v = c}"
      by (auto simp: less_Suc_eq)
    then show ?thesis using True fin by simp
  next
    case False
    then have "{v. v < Suc k \<and> m ! v = c} = {v. v < k \<and> m ! v = c}"
      by (auto simp: less_Suc_eq)
    then show ?thesis using False by simp
  qed
qed

lemma init_edge_fields [simp]:
  "membership (init_edge g vc ue p) = membership p"
  "community (init_edge g vc ue p) = community p"
  "csize_vec (init_edge g vc ue p) = csize_vec p"
  "empty_communities (init_edge g vc ue p) = empty_communities p"
  "total_possible_edges_in_all_comms (init_edge g vc ue p) = total_possible_edges_in_all_comms p"
  "length (total_weight_in_comm (init_edge g vc ue p)) = length (total_weight_in_comm p)"
  "length (total_weight_from_comm (init_edge g vc ue p)) = length (total_weight_from_comm p)"
  "length (total_weight_to_comm (init_edge g vc ue p)) = length (total_weight_to_comm p)"
  by (simp_all add: init_edge_def Let_def add_at_def)

lemma init_edge_cache [simp]:
  "current_node_cache_community_from (init_edge g vc ue p) = current_node_cache_community_from p"
  "current_node_cache_community_to (init_edge g vc ue p) = current_node_cache_community_to p"
  "current_node_cache_community_all (init_edge g vc ue p) = current_node_cache_community_all p"
  "cached_weight_from_community (init_edge g vc ue p) = cached_weight_from_community p"
  "cached_weight_to_community (init_edge g vc ue p) = cached_weight_to_community p"
  "cached_weight_all_community (init_edge g vc ue p) = cached_weight_all_community p"
  "cached_neigh_comms_from (init_edge g vc ue p) = cached_neigh_comms_from p"
  "cached_neigh_comms_to (init_edge g vc ue p) = cached_neigh_comms_to p"
  "cached_neigh_comms_all (init_edge g vc ue p) = cached_neigh_comms_all p"
  by (simp_all add: init_edge_def Let_def)

lemma init_edges_fields [simp]:
  "membership (fold (init_edge g vc) es p) = membership p"
  "community (fold (init_edge g vc) es p) = community p"
  "csize_vec (fold (init_edge g vc) es p) = csize_vec p"
  "empty_communities (fold (init_edge g vc) es p) = empty_communities p"
  "total_possible_edges_in_all_comms (fold (init_edge g vc) es p) = total_possible_edges_in_all_comms p"
  "length (total_weight_in_comm (fold (init_edge g vc) es p)) = length (total_weight_in_comm p)"
  "length (total_weight_from_comm (fold (init_edge g vc) es p)) = length (total_weight_from_comm p)"
  "length (total_weight_to_comm (fold (init_edge g vc) es p)) = length (total_weight_to_comm p)"
  by (induction es arbitrary: p; simp)+

lemma init_edges_cache [simp]:
  "current_node_cache_community_from (fold (init_edge g vc) es p) = current_node_cache_community_from p"
  "current_node_cache_community_to (fold (init_edge g vc) es p) = current_node_cache_community_to p"
  "current_node_cache_community_all (fold (init_edge g vc) es p) = current_node_cache_community_all p"
  "cached_weight_from_community (fold (init_edge g vc) es p) = cached_weight_from_community p"
  "cached_weight_to_community (fold (init_edge g vc) es p) = cached_weight_to_community p"
  "cached_weight_all_community (fold (init_edge g vc) es p) = cached_weight_all_community p"
  "cached_neigh_comms_from (fold (init_edge g vc) es p) = cached_neigh_comms_from p"
  "cached_neigh_comms_to (fold (init_edge g vc) es p) = cached_neigh_comms_to p"
  "cached_neigh_comms_all (fold (init_edge g vc) es p) = cached_neigh_comms_all p"
  by (induction es arbitrary: p; simp)+

lemma init_vertex_fields [simp]:
  "membership (init_vertex g v p) = membership p"
  "community (init_vertex g v p) =
     (community p)[membership p ! v := insert v (community p ! (membership p ! v))]"
  "csize_vec (init_vertex g v p) =
     (csize_vec p)[membership p ! v := csize_vec p ! (membership p ! v) + node_size g v]"
  "empty_communities (init_vertex g v p) = empty_communities p"
  "total_possible_edges_in_all_comms (init_vertex g v p) = total_possible_edges_in_all_comms p"
  "length (total_weight_in_comm (init_vertex g v p)) = length (total_weight_in_comm p)"
  "length (total_weight_from_comm (init_vertex g v p)) = length (total_weight_from_comm p)"
  "length (total_weight_to_comm (init_vertex g v p)) = length (total_weight_to_comm p)"
  by (simp_all add: init_vertex_def Let_def)

lemma init_vertex_cache [simp]:
  "current_node_cache_community_from (init_vertex g v p) = current_node_cache_community_from p"
  "current_node_cache_community_to (init_vertex g v p) = current_node_cache_community_to p"
  "current_node_cache_community_all (init_vertex g v p) = current_node_cache_community_all p"
  "cached_weight_from_community (init_vertex g v p) = cached_weight_from_community p"
  "cached_weight_to_community (init_vertex g v p) = cached_weight_to_community p"
  "cached_weight_all_community (init_vertex g v p) = cached_weight_all_community p"
  "cached_neigh_comms_from (init_vertex g v p) = cached_neigh_comms_from p"
  "cached_neigh_comms_to (init_vertex g v p) = cached_neigh_comms_to p"
  "cached_neigh_comms_all (init_vertex g v p) = cached_neigh_comms_all p"
  by (simp_all add: init_vertex_def Let_def)

lemma init_vertices_fields [simp]:
  "membership (fold (init_vertex g) vs p) = membership p"
  "empty_communities (fold (init_vertex g) vs p) = empty_communities p"
  "total_possible_edges_in_all_comms (fold (init_vertex g) vs p) = total_possible_edges_in_all_comms p"
  "length (community (fold (init_vertex g) vs p)) = length (community p)"
  "length (csize_vec (fold (init_vertex g) vs p)) = length (csize_vec p)"
  "length (total_weight_in_comm (fold (init_vertex g) vs p)) = length (total_weight_in_comm p)"
  "length (total_weight_from_comm (fold (init_vertex g) vs p)) = length (total_weight_from_comm p)"
  "length (total_weight_to_comm (fold (init_vertex g) vs p)) = length (total_weight_to_comm p)"
  by (induction vs arbitrary: p; simp)+

lemma init_vertices_cache [simp]:
  "current_node_cache_community_from (fold (init_vertex g) vs p) = current_node_cache_community_from p"
  "current_node_cache_community_to (fold (init_vertex g) vs p) = current_node_cache_community_to p"
  "current_node_cache_community_all (fold (init_vertex g) vs p) = current_node_cache_community_all p"
  "cached_weight_from_community (fold (init_vertex g) vs p) = cached_weight_from_community p"
  "cached_weight_to_community (fold (init_vertex g) vs p) = cached_weight_to_community p"
  "cached_weight_all_community (fold (init_vertex g) vs p) = cached_weight_all_community p"
  "cached_neigh_comms_from (fold (init_vertex g) vs p) = cached_neigh_comms_from p"
  "cached_neigh_comms_to (fold (init_vertex g) vs p) = cached_neigh_comms_to p"
  "cached_neigh_comms_all (fold (init_vertex g) vs p) = cached_neigh_comms_all p"
  by (induction vs arbitrary: p; simp)+

lemma init_vertices_members:
  assumes "\<forall>v<k. membership p ! v < length (community p)"
    and "length (csize_vec p) = length (community p)"
    and "c < length (community p)"
  shows "community (fold (init_vertex g) [0..<k] p) ! c =
           community p ! c \<union> {v. v < k \<and> membership p ! v = c} \<and>
         csize_vec (fold (init_vertex g) [0..<k] p) ! c =
           csize_vec p ! c + (\<Sum>v | v < k \<and> membership p ! v = c. node_size g v)"
  using assms
proof (induction k)
  case 0
  then show ?case by simp
next
  case (Suc k)
  then have IH: "community (fold (init_vertex g) [0..<k] p) ! c =
           community p ! c \<union> {v. v < k \<and> membership p ! v = c}"
     "csize_vec (fold (init_vertex g) [0..<k] p) ! c =
           csize_vec p ! c + (\<Sum>v | v < k \<and> membership p ! v = c. node_size g v)"
    by auto
  have mk: "membership p ! k < length (community p)" using Suc.prems by simp
  have set_Suc: "{v. v < Suc k \<and> membership p ! v = c} =
      {v. v < k \<and> membership p ! v = c} \<union> (if membership p ! k = c then {k} else {})"
    by (auto simp: less_Suc_eq)
  have "community (fold (init_vertex g) [0..<Suc k] p) ! c =
           community p ! c \<union> {v. v < Suc k \<and> membership p ! v = c}"
    unfolding set_Suc using IH(1) Suc.prems(3) mk by (auto simp: nth_list_update)
  moreover have "csize_vec (fold (init_vertex g) [0..<Suc k] p) ! c =
           csize_vec p ! c + (\<Sum>v | v < Suc k \<and> membership p ! v = c. node_size g v)"
    unfolding sum_members_Suc using IH(2) Suc.prems(2,3) mk by (auto simp: nth_list_update)
  ultimately show ?case by blast
qed


lemma fold_add_upt:
  "fold (\<lambda>c acc. acc + f c) [0..<k] (a::int) = a + (\<Sum>c<k. f c)"
  by (induction k) simp_all

lemma init_admin_fields:
  "membership (init_admin_body g p) = membership p"
  "empty_communities (init_admin_body g p) = empty_communities p"
  "length (community (init_admin_body g p)) = count_comms (membership p) (vcount g)"
  "length (csize_vec (init_admin_body g p)) = count_comms (membership p) (vcount g)"
  "length (total_weight_in_comm (init_admin_body g p)) = count_comms (membership p) (vcount g)"
  "length (total_weight_from_comm (init_admin_body g p)) = count_comms (membership p) (vcount g)"
  "length (total_weight_to_comm (init_admin_body g p)) = count_comms (membership p) (vcount g)"
  by (simp_all add: init_admin_body_def Let_def)

lemma init_admin_cache:
  "current_node_cache_community_from (init_admin_body g p) = vcount g + 1"
  "current_node_cache_community_to (init_admin_body g p) = vcount g + 1"
  "current_node_cache_community_all (init_admin_body g p) = vcount g + 1"
  "cached_weight_from_community (init_admin_body g p) = resize (vcount g) 0 (cached_weight_from_community p)"
  "cached_weight_to_community (init_admin_body g p) = resize (vcount g) 0 (cached_weight_to_community p)"
  "cached_weight_all_community (init_admin_body g p) = resize (vcount g) 0 (cached_weight_all_community p)"
  "cached_neigh_comms_from (init_admin_body g p) = cached_neigh_comms_from p"
  "cached_neigh_comms_to (init_admin_body g p) = cached_neigh_comms_to p"
  "cached_neigh_comms_all (init_admin_body g p) = cached_neigh_comms_all p"
  by (simp_all add: init_admin_body_def Let_def)

lemma init_admin_members:
  assumes "c < count_comms (membership p) (vcount g)"
    and rng: "\<forall>v<vcount g. membership p ! v < count_comms (membership p) (vcount g)"
  shows "community (init_admin_body g p) ! c = {v. v < vcount g \<and> membership p ! v = c}"
    and "csize_vec (init_admin_body g p) ! c =
           (\<Sum>v | v < vcount g \<and> membership p ! v = c. node_size g v)"
proof -
  let ?nb = "count_comms (membership p) (vcount g)"
  let ?p1 = "p\<lparr>community := replicate ?nb {},
                 total_weight_in_comm := replicate ?nb 0,
                 total_weight_from_comm := replicate ?nb 0,
                 total_weight_to_comm := replicate ?nb 0,
                 csize_vec := replicate ?nb 0,
                 current_node_cache_community_from := vcount g + 1,
                 cached_weight_from_community := resize (vcount g) 0 (cached_weight_from_community p),
                 current_node_cache_community_to := vcount g + 1,
                 cached_weight_to_community := resize (vcount g) 0 (cached_weight_to_community p),
                 current_node_cache_community_all := vcount g + 1,
                 cached_weight_all_community := resize (vcount g) 0 (cached_weight_all_community p),
                 total_weight_in_all_comms := 0\<rparr>"
  have "\<forall>v<vcount g. membership ?p1 ! v < length (community ?p1)"
    using rng by simp
  moreover have "length (csize_vec ?p1) = length (community ?p1)" by simp
  moreover have "c < length (community ?p1)" using assms by simp
  ultimately have *: "community (fold (init_vertex g) [0..<vcount g] ?p1) ! c =
           community ?p1 ! c \<union> {v. v < vcount g \<and> membership ?p1 ! v = c} \<and>
         csize_vec (fold (init_vertex g) [0..<vcount g] ?p1) ! c =
           csize_vec ?p1 ! c + (\<Sum>v | v < vcount g \<and> membership ?p1 ! v = c. node_size g v)"
    by (rule init_vertices_members)
  show "community (init_admin_body g p) ! c = {v. v < vcount g \<and> membership p ! v = c}"
    using * assms(1) by (simp add: init_admin_body_def Let_def)
  show "csize_vec (init_admin_body g p) ! c =
           (\<Sum>v | v < vcount g \<and> membership p ! v = c. node_size g v)"
    using * assms(1) by (simp add: init_admin_body_def Let_def)
qed

lemma init_admin_ok:
  assumes "length (membership p) = vcount g"
    and "\<forall>v<vcount g. membership p ! v < count_comms (membership p) (vcount g)"
  shows "partition_ok g (init_admin_body g p)"
  unfolding partition_ok_def
  using assms by (simp add: init_admin_fields init_admin_members)

lemma init_admin_Inr:
  assumes "init_admin g p = Inr q"
  shows "q = init_admin_body g p"
    and "vcount g \<le> length (membership p)"
    and "\<forall>v<vcount g. membership p ! v < count_comms (membership p) (vcount g)"
  using assms by (auto simp: init_admin_def list_all_iff split: if_splits)

lemma init_admin_fits:
  assumes "vcount g \<le> length (membership p)"
    and "\<forall>v<vcount g. membership p ! v < 2 ^ 64 - 1"
  shows "init_admin g p = Inr (init_admin_body g p)"
proof -
  have "\<forall>v<vcount g. membership p ! v < count_comms (membership p) (vcount g)"
    using count_comms_fit [OF assms(2)] by blast
  then show ?thesis using assms(1) by (simp add: init_admin_def list_all_iff)
qed

lemma init_admin_Inr_ok:
  assumes "init_admin g p = Inr q" and "length (membership p) = vcount g"
  shows "partition_ok g q"
  unfolding init_admin_Inr(1) [OF assms(1)]
  by (rule init_admin_ok [OF assms(2) init_admin_Inr(3) [OF assms(1)]])

lemma init_admin_possible_edges:
  "total_possible_edges_in_all_comms (init_admin_body g p) =
     (\<Sum>c<nb_communities (init_admin_body g p). int (possible_edges g (csize (init_admin_body g p) c)))"
proof -
  have "csize (init_admin_body g p) c = csize (fold (init_vertex g) [0..<vcount g]
        (p\<lparr>community := replicate (count_comms (membership p) (vcount g)) {},
                 total_weight_in_comm := replicate (count_comms (membership p) (vcount g)) 0,
                 total_weight_from_comm := replicate (count_comms (membership p) (vcount g)) 0,
                 total_weight_to_comm := replicate (count_comms (membership p) (vcount g)) 0,
                 csize_vec := replicate (count_comms (membership p) (vcount g)) 0,
                 current_node_cache_community_from := vcount g + 1,
                 cached_weight_from_community := resize (vcount g) 0 (cached_weight_from_community p),
                 current_node_cache_community_to := vcount g + 1,
                 cached_weight_to_community := resize (vcount g) 0 (cached_weight_to_community p),
                 current_node_cache_community_all := vcount g + 1,
                 cached_weight_all_community := resize (vcount g) 0 (cached_weight_all_community p),
                 total_weight_in_all_comms := 0\<rparr>)) c" for c
    by (simp add: init_admin_body_def Let_def csize_def)
  then show ?thesis
    by (simp add: init_admin_body_def Let_def fold_add_upt nb_communities_def)
qed


lemma fold_update_upt:
  "n \<le> length m \<Longrightarrow>
     fold (\<lambda>i m'. m'[i := h i (m' ! i)]) [0..<n] m = map (\<lambda>i. h i (m ! i)) [0..<n] @ drop n m"
proof (induction n)
  case 0
  then show ?case by simp
next
  case (Suc n)
  then have n: "n < length m" by simp
  have "(map (\<lambda>i. h i (m ! i)) [0..<n] @ drop n m) ! n = m ! n"
    using n by (simp add: nth_append)
  moreover have "(map (\<lambda>i. h i (m ! i)) [0..<n] @ drop n m)[n := x] =
      map (\<lambda>i. h i (m ! i)) [0..<n] @ x # drop (Suc n) m" for x
    using n by (simp add: list_update_append Cons_nth_drop_Suc [symmetric])
  ultimately show ?case using Suc by simp
qed

lemma fold_update_upt_length:
  "n \<le> length m \<Longrightarrow> length (fold (\<lambda>i m'. m'[i := h i (m' ! i)]) [0..<n] m) = length m"
  by (simp add: fold_update_upt)

lemma fold_update_upt_nth:
  "n \<le> length m \<Longrightarrow> v < n \<Longrightarrow>
     fold (\<lambda>i m'. m'[i := h i (m' ! i)]) [0..<n] m ! v = h v (m ! v)"
  by (simp add: fold_update_upt nth_append)

lemma renumber_communities_membership_result:
  assumes "length (membership p) = vcount g" and "vcount g \<le> length new_membership"
  shows "renumber_communities_membership g new_membership p =
           init_admin g (clean_mem (p\<lparr>membership := take (vcount g) new_membership\<rparr>))"
proof -
  let ?m = "fold (\<lambda>i m. m[i := new_membership ! i]) [0..<vcount g] (membership p)"
  have 1: "renumber_communities_membership g new_membership p =
      init_admin g (clean_mem (p\<lparr>membership := ?m\<rparr>))"
    using assms by (simp add: renumber_communities_membership_def)
  have 3: "\<forall>v < vcount g. ?m ! v = new_membership ! v"
    using assms fold_update_upt_nth [of "vcount g" "membership p" _ "\<lambda>i x. new_membership ! i"]
    by simp
  have 4: "length ?m = vcount g"
    using assms fold_update_upt_length [of "vcount g" "membership p" "\<lambda>i x. new_membership ! i"]
    by simp
  have "?m = take (vcount g) new_membership"
    using 3 4 assms(2) by (intro nth_equalityI) simp_all
  then show ?thesis unfolding 1 by simp
qed

lemma renumber_communities_membership_Inr:
  assumes "length (membership p) = vcount g" and "vcount g \<le> length new_membership"
    and "renumber_communities_membership g new_membership p = Inr p'"
  shows "membership p' = take (vcount g) new_membership"
    and "init_admin g (clean_mem (p\<lparr>membership := membership p'\<rparr>)) = Inr p'"
    and "partition_ok g p'"
proof -
  let ?q = "clean_mem (p\<lparr>membership := take (vcount g) new_membership\<rparr>)"
  have r: "init_admin g ?q = Inr p'"
    using renumber_communities_membership_result [OF assms(1,2)] assms(3) by simp
  have l: "length (membership ?q) = vcount g" using assms(2) by (simp add: clean_mem_def)
  show m: "membership p' = take (vcount g) new_membership"
    unfolding init_admin_Inr(1) [OF r] by (simp add: init_admin_fields clean_mem_def)
  show "init_admin g (clean_mem (p\<lparr>membership := membership p'\<rparr>)) = Inr p'"
    unfolding m by (rule r)
  show "partition_ok g p'" by (rule init_admin_Inr_ok [OF r l])
qed

lemma ex_graph_vcount: "vcount ex_graph = 2"
  by (simp add: ex_graph_def)

section \<open>Moving a node: the loop and its closed form\<close>

lemma nth_add_at:
  "i < length xs \<Longrightarrow> c < length xs \<Longrightarrow> add_at xs i a ! c = xs ! c + (if c = i then a else 0)"
  by (simp add: add_at_def nth_list_update)

lemma length_add_at [simp]: "length (add_at xs i a) = length xs"
  by (simp add: add_at_def)

lemma switch_internal_result:
  assumes "oc < length (total_weight_in_comm p)" and "nc < length (total_weight_in_comm p)"
  shows "\<exists>X. switch_internal g v oc nc ue p =
           p\<lparr>total_weight_in_comm := X,
             total_weight_in_all_comms :=
               total_weight_in_all_comms p + total_internal_gain g v oc nc (membership p) ue\<rparr> \<and>
           length X = length (total_weight_in_comm p) \<and>
           (\<forall>c < length X. X ! c =
              total_weight_in_comm p ! c + internal_gain g v oc nc (membership p) ue c)"
proof -
  define iw where "iw = int_weight g v ue"
  define A where "A \<longleftrightarrow> oc = membership p ! fst ue"
  define B where "B \<longleftrightarrow> nc = membership p ! fst ue \<or> fst ue = v"
  define X1 where "X1 = (if A then add_at (total_weight_in_comm p) oc (- iw)
             else total_weight_in_comm p)"
  define X where "X = (if B then add_at X1 nc iw else X1)"
  have len: "length X1 = length (total_weight_in_comm p)" "length X = length (total_weight_in_comm p)"
    by (simp_all add: X1_def X_def)
  have tg: "total_internal_gain g v oc nc (membership p) ue =
      (if B then iw else 0) - (if A then iw else 0)"
    by (simp add: total_internal_gain_def A_def B_def iw_def)
  have ig: "internal_gain g v oc nc (membership p) ue c =
      (if B \<and> c = nc then iw else 0) - (if A \<and> c = oc then iw else 0)" for c
    by (simp add: internal_gain_def A_def B_def iw_def)
  have sw: "switch_internal g v oc nc ue p =
     (let p1 = (if A
                then p\<lparr>total_weight_in_comm := add_at (total_weight_in_comm p) oc (- iw),
                       total_weight_in_all_comms := total_weight_in_all_comms p - iw\<rparr>
                else p)
      in if B
         then p1\<lparr>total_weight_in_comm := add_at (total_weight_in_comm p1) nc iw,
                 total_weight_in_all_comms := total_weight_in_all_comms p1 + iw\<rparr>
         else p1)"
    unfolding switch_internal_def A_def B_def iw_def Let_def by (rule refl)
  have eq: "switch_internal g v oc nc ue p =
           p\<lparr>total_weight_in_comm := X,
             total_weight_in_all_comms :=
               total_weight_in_all_comms p + total_internal_gain g v oc nc (membership p) ue\<rparr>"
    unfolding sw tg X_def X1_def by (cases A; cases B; simp)
  have nth: "X ! c = total_weight_in_comm p ! c + internal_gain g v oc nc (membership p) ue c"
    if "c < length X" for c
  proof -
    have c: "c < length (total_weight_in_comm p)" using that len by simp
    have "X1 ! c = total_weight_in_comm p ! c - (if A \<and> c = oc then iw else 0)"
      using assms c by (cases A) (simp_all add: X1_def nth_add_at)
    moreover have "X ! c = X1 ! c + (if B \<and> c = nc then iw else 0)"
      using assms c len by (cases B) (simp_all add: X_def nth_add_at)
    ultimately show ?thesis unfolding ig by simp
  qed
  from eq len(2) nth show ?thesis by blast
qed

lemma switch_link_result:
  assumes "mode \<noteq> IGRAPH_ALL"
    and "oc < length (total_weight_from_comm p)" and "nc < length (total_weight_from_comm p)"
    and "oc < length (total_weight_to_comm p)" and "nc < length (total_weight_to_comm p)"
  shows "\<exists>Y Z. switch_link g oc nc mode ue p =
           Inr (p\<lparr>total_weight_from_comm := Y, total_weight_to_comm := Z\<rparr>) \<and>
           length Y = length (total_weight_from_comm p) \<and>
           length Z = length (total_weight_to_comm p) \<and>
           (\<forall>c < length Y. Y ! c = total_weight_from_comm p ! c +
              (if mode = IGRAPH_OUT then link_gain oc nc (edge_weight g (snd ue)) c else 0)) \<and>
           (\<forall>c < length Z. Z ! c = total_weight_to_comm p ! c +
              (if mode = IGRAPH_IN then link_gain oc nc (edge_weight g (snd ue)) c else 0))"
proof (cases mode)
  case IGRAPH_OUT
  let ?Y = "add_at (add_at (total_weight_from_comm p) oc (- edge_weight g (snd ue))) nc
              (edge_weight g (snd ue))"
  have "switch_link g oc nc mode ue p =
      Inr (p\<lparr>total_weight_from_comm := ?Y, total_weight_to_comm := total_weight_to_comm p\<rparr>)"
    using IGRAPH_OUT by (simp add: switch_link_def Let_def)
  moreover have "\<forall>c < length ?Y. ?Y ! c = total_weight_from_comm p ! c +
       link_gain oc nc (edge_weight g (snd ue)) c"
    using assms by (simp add: nth_add_at link_gain_def)
  ultimately show ?thesis using IGRAPH_OUT by (intro exI [of _ ?Y] exI [of _ "total_weight_to_comm p"]) simp
next
  case IGRAPH_IN
  let ?Z = "add_at (add_at (total_weight_to_comm p) oc (- edge_weight g (snd ue))) nc
              (edge_weight g (snd ue))"
  have "switch_link g oc nc mode ue p =
      Inr (p\<lparr>total_weight_from_comm := total_weight_from_comm p, total_weight_to_comm := ?Z\<rparr>)"
    using IGRAPH_IN by (simp add: switch_link_def Let_def)
  moreover have "\<forall>c < length ?Z. ?Z ! c = total_weight_to_comm p ! c +
       link_gain oc nc (edge_weight g (snd ue)) c"
    using assms by (simp add: nth_add_at link_gain_def)
  ultimately show ?thesis using IGRAPH_IN by (intro exI [of _ "total_weight_from_comm p"] exI [of _ ?Z]) simp
next
  case IGRAPH_ALL
  with assms show ?thesis by simp
qed



lemma map_nth_eq:
  "length X = n \<Longrightarrow> \<forall>c<n. X ! c = f c \<Longrightarrow> X = map f [0..<n]"
  by (rule nth_equalityI) simp_all

lemma move_edge_closed:
  assumes "mode \<noteq> IGRAPH_ALL"
    and "oc < length (total_weight_in_comm p)" and "nc < length (total_weight_in_comm p)"
    and "oc < length (total_weight_from_comm p)" and "nc < length (total_weight_from_comm p)"
    and "oc < length (total_weight_to_comm p)" and "nc < length (total_weight_to_comm p)"
  shows "move_edge g v oc nc mode ue p = Inr (edges_moved g v oc nc mode [ue] p)"
proof -
  from switch_link_result [OF assms(1,4-7), of g ue]
  obtain Y Z where YZ:
    "switch_link g oc nc mode ue p =
       Inr (p\<lparr>total_weight_from_comm := Y, total_weight_to_comm := Z\<rparr>)"
    "length Y = length (total_weight_from_comm p)"
    "length Z = length (total_weight_to_comm p)"
    "\<forall>c < length Y. Y ! c = total_weight_from_comm p ! c +
       (if mode = IGRAPH_OUT then link_gain oc nc (edge_weight g (snd ue)) c else 0)"
    "\<forall>c < length Z. Z ! c = total_weight_to_comm p ! c +
       (if mode = IGRAPH_IN then link_gain oc nc (edge_weight g (snd ue)) c else 0)"
    by blast
  let ?p1 = "p\<lparr>total_weight_from_comm := Y, total_weight_to_comm := Z\<rparr>"
  have b: "oc < length (total_weight_in_comm ?p1)" "nc < length (total_weight_in_comm ?p1)"
    using assms by simp_all
  from switch_internal_result [OF b, of g v ue]
  obtain X where X:
    "switch_internal g v oc nc ue ?p1 =
       ?p1\<lparr>total_weight_in_comm := X,
          total_weight_in_all_comms :=
            total_weight_in_all_comms ?p1 + total_internal_gain g v oc nc (membership ?p1) ue\<rparr>"
    "length X = length (total_weight_in_comm ?p1)"
    "\<forall>c < length X. X ! c =
        total_weight_in_comm ?p1 ! c + internal_gain g v oc nc (membership ?p1) ue c"
    by blast
  have X': "X = map (\<lambda>c. total_weight_in_comm p ! c + internal_gain g v oc nc (membership p) ue c)
      [0..<length (total_weight_in_comm p)]"
    using X(2,3) by (intro map_nth_eq) simp_all
  have Y': "Y = map (\<lambda>c. total_weight_from_comm p ! c +
       (if mode = IGRAPH_OUT then link_gain oc nc (edge_weight g (snd ue)) c else 0))
      [0..<length (total_weight_from_comm p)]"
    using YZ(2,4) by (intro map_nth_eq) simp_all
  have Z': "Z = map (\<lambda>c. total_weight_to_comm p ! c +
       (if mode = IGRAPH_IN then link_gain oc nc (edge_weight g (snd ue)) c else 0))
      [0..<length (total_weight_to_comm p)]"
    using YZ(3,5) by (intro map_nth_eq) simp_all
  have "move_edge g v oc nc mode ue p = Inr (switch_internal g v oc nc ue ?p1)"
    by (simp add: move_edge_def and_then_def YZ(1))
  also have "switch_internal g v oc nc ue ?p1 = edges_moved g v oc nc mode [ue] p"
    unfolding X(1) edges_moved_def using X' Y' Z' by simp
  finally show ?thesis .
qed

lemma edges_moved_fields [simp]:
  "membership (edges_moved g v oc nc mode es p) = membership p"
  "community (edges_moved g v oc nc mode es p) = community p"
  "csize_vec (edges_moved g v oc nc mode es p) = csize_vec p"
  "empty_communities (edges_moved g v oc nc mode es p) = empty_communities p"
  "total_possible_edges_in_all_comms (edges_moved g v oc nc mode es p) =
     total_possible_edges_in_all_comms p"
  "length (total_weight_in_comm (edges_moved g v oc nc mode es p)) = length (total_weight_in_comm p)"
  "length (total_weight_from_comm (edges_moved g v oc nc mode es p)) = length (total_weight_from_comm p)"
  "length (total_weight_to_comm (edges_moved g v oc nc mode es p)) = length (total_weight_to_comm p)"
  by (simp_all add: edges_moved_def)

lemma edges_moved_Cons:
  "edges_moved g v oc nc mode es (edges_moved g v oc nc mode [ue] p) =
     edges_moved g v oc nc mode (ue # es) p"
  by (simp add: edges_moved_def add.assoc)

lemma move_edges_closed:
  assumes "mode \<noteq> IGRAPH_ALL"
    and "oc < length (total_weight_in_comm p)" and "nc < length (total_weight_in_comm p)"
    and "oc < length (total_weight_from_comm p)" and "nc < length (total_weight_from_comm p)"
    and "oc < length (total_weight_to_comm p)" and "nc < length (total_weight_to_comm p)"
  shows "move_edges g v oc nc mode es p = Inr (edges_moved g v oc nc mode es p)"
  using assms
proof (induction es arbitrary: p)
  case Nil
  have "edges_moved g v oc nc mode [] p = p"
    by (simp add: edges_moved_def map_nth cong: if_cong)
  then show ?case by simp
next
  case (Cons ue es)
  let ?p1 = "edges_moved g v oc nc mode [ue] p"
  have "move_edges g v oc nc mode (ue # es) p = move_edges g v oc nc mode es ?p1"
    using move_edge_closed [OF Cons.prems, of g v ue] by (simp add: and_then_def)
  also have "\<dots> = Inr (edges_moved g v oc nc mode es ?p1)"
    using Cons.prems by (intro Cons.IH) simp_all
  finally show ?case by (simp add: edges_moved_Cons)
qed


lemma update_possible_edges_eq:
  "update_possible_edges g v oc nc p =
     p\<lparr>total_possible_edges_in_all_comms :=
         (if nc \<noteq> oc
          then double_of_int
                 (double_of_int (total_possible_edges_in_all_comms p) +
                  delta_possible_edges_in_comms g (node_size g v)
                    (csize_vec p ! nc) (csize_vec p ! oc))
          else total_possible_edges_in_all_comms p)\<rparr>"
  by (simp add: update_possible_edges_def)

lemma remove_from_old_eq:
  "remove_from_old g v oc p =
     p\<lparr>community := (community p)[oc := community p ! oc - {v}],
       csize_vec := (csize_vec p)[oc := sub_size_t (csize_vec p ! oc) (node_size g v)],
       empty_communities :=
         (if (csize_vec p)[oc := sub_size_t (csize_vec p ! oc) (node_size g v)] ! oc = 0
          then empty_communities p @ [oc] else empty_communities p)\<rparr>"
  by (simp add: remove_from_old_def Let_def)

lemma taken_from_pool_eq:
  "taken_from_pool nc p =
     p\<lparr>empty_communities :=
         (if csize_vec p ! nc = 0 then erase_last nc (empty_communities p)
          else empty_communities p)\<rparr>"
  by (simp add: taken_from_pool_def)

lemma add_to_new_eq:
  "add_to_new g v nc p =
     p\<lparr>community := (community p)[nc := insert v (community p ! nc)],
       csize_vec := (csize_vec p)[nc := csize_vec p ! nc + node_size g v]\<rparr>"
  by (simp add: add_to_new_def Let_def)

lemma take_from_pool_closed:
  "csize_vec p ! nc = 0 \<longrightarrow> nc \<in> set (empty_communities p) \<Longrightarrow>
     take_from_pool nc p = Inr (taken_from_pool nc p)"
  by (simp add: take_from_pool_def taken_from_pool_def)

lemma set_erase_last: "x \<noteq> y \<Longrightarrow> x \<in> set xs \<Longrightarrow> x \<in> set (erase_last y xs)"
  by (simp add: erase_last_def)

lemma erase_last_snoc [simp]: "erase_last x (xs @ [x]) = xs"
  by (simp add: erase_last_def)

lemma move_node_closed:
  assumes "v < length (membership p)"
    and "comm_allocated p (membership p ! v)" and "comm_allocated p nc"
    and "nc \<noteq> membership p ! v \<longrightarrow> csize_vec p ! nc = 0 \<longrightarrow> nc \<in> set (empty_communities p)"
  shows "move_node g v nc p = Inr (node_moved g v nc p)"
proof -
  define oc where "oc = membership p ! v"
  define p0 where "p0 = remove_from_old g v oc (update_possible_edges g v oc nc p)"
  define p1 where "p1 = taken_from_pool nc p0"
  define p1' where "p1' = add_to_new g v nc p1"
  define p2 where "p2 = edges_moved g v oc nc IGRAPH_OUT (incident g v IGRAPH_OUT) p1'"
  define p3 where "p3 = edges_moved g v oc nc IGRAPH_IN (incident g v IGRAPH_IN) p2"
  have al: "oc < length (csize_vec p)" "nc < length (csize_vec p)"
    "oc < length (total_weight_in_comm p)" "nc < length (total_weight_in_comm p)"
    "oc < length (total_weight_from_comm p)" "nc < length (total_weight_from_comm p)"
    "oc < length (total_weight_to_comm p)" "nc < length (total_weight_to_comm p)"
    using assms(2,3) by (simp_all add: comm_allocated_def oc_def)
  have pool: "csize_vec p0 ! nc = 0 \<longrightarrow> nc \<in> set (empty_communities p0)"
  proof (cases "nc = oc")
    case True
    then show ?thesis
      using al by (simp add: p0_def remove_from_old_eq update_possible_edges_eq)
  next
    case False
    then show ?thesis
      using al assms(4)
      by (simp add: p0_def remove_from_old_eq update_possible_edges_eq oc_def)
  qed
  have s1: "take_from_pool nc p0 = Inr p1"
    unfolding p1_def by (rule take_from_pool_closed [OF pool])
  have w1: "total_weight_in_comm p1' = total_weight_in_comm p"
    "total_weight_from_comm p1' = total_weight_from_comm p"
    "total_weight_to_comm p1' = total_weight_to_comm p"
    by (simp_all add: p1'_def p1_def p0_def add_to_new_eq taken_from_pool_eq remove_from_old_eq
        update_possible_edges_eq)
  have s2: "move_edges g v oc nc IGRAPH_OUT (incident g v IGRAPH_OUT) p1' = Inr p2"
    unfolding p2_def using al by (intro move_edges_closed) (simp_all add: w1)
  have s3: "move_edges g v oc nc IGRAPH_IN (incident g v IGRAPH_IN) p2 = Inr p3"
    unfolding p3_def using al by (intro move_edges_closed) (simp_all add: p2_def w1)
  have "move_node g v nc p = Inr (p3\<lparr>membership := (membership p3)[v := nc]\<rparr>)"
    using assms(1-3) s1 s2 s3
    by (simp add: move_node_def Let_def and_then_def oc_def [symmetric] p0_def [symmetric]
        p1'_def [symmetric])
  moreover have "node_moved g v nc p = p3\<lparr>membership := (membership p3)[v := nc]\<rparr>"
    unfolding node_moved_def Let_def p3_def p2_def p1'_def p1_def p0_def oc_def by (rule refl)
  ultimately show ?thesis by simp
qed


lemmas stage_eqs = add_to_new_eq taken_from_pool_eq remove_from_old_eq update_possible_edges_eq

lemma node_moved_fields:
  "membership (node_moved g v nc p) = (membership p)[v := nc]"
  "community (node_moved g v nc p) =
     ((community p)[membership p ! v := community p ! (membership p ! v) - {v}])
       [nc := insert v (((community p)[membership p ! v := community p ! (membership p ! v) - {v}]) ! nc)]"
  "csize_vec (node_moved g v nc p) =
     ((csize_vec p)[membership p ! v := sub_size_t (csize_vec p ! (membership p ! v)) (node_size g v)])
       [nc := ((csize_vec p)[membership p ! v :=
                 sub_size_t (csize_vec p ! (membership p ! v)) (node_size g v)]) ! nc + node_size g v]"
  "total_possible_edges_in_all_comms (node_moved g v nc p) =
       (if nc \<noteq> membership p ! v
        then double_of_int
               (double_of_int (total_possible_edges_in_all_comms p) +
                delta_possible_edges_in_comms g (node_size g v)
                  (csize_vec p ! nc) (csize_vec p ! (membership p ! v)))
        else total_possible_edges_in_all_comms p)"
  "length (total_weight_in_comm (node_moved g v nc p)) = length (total_weight_in_comm p)"
  "length (total_weight_from_comm (node_moved g v nc p)) = length (total_weight_from_comm p)"
  "length (total_weight_to_comm (node_moved g v nc p)) = length (total_weight_to_comm p)"
  by (simp_all add: node_moved_def Let_def stage_eqs)

lemma node_moved_pool:
  "empty_communities (node_moved g v nc p) =
     (let S1 = (csize_vec p)[membership p ! v :=
                 sub_size_t (csize_vec p ! (membership p ! v)) (node_size g v)];
          E1 = (if S1 ! (membership p ! v) = 0 then empty_communities p @ [membership p ! v]
                else empty_communities p)
      in if S1 ! nc = 0 then erase_last nc E1 else E1)"
  by (simp add: node_moved_def Let_def stage_eqs)

lemma node_moved_cache:
  "current_node_cache_community_from (node_moved g v nc p) = current_node_cache_community_from p"
  "current_node_cache_community_to (node_moved g v nc p) = current_node_cache_community_to p"
  "current_node_cache_community_all (node_moved g v nc p) = current_node_cache_community_all p"
  "cached_weight_from_community (node_moved g v nc p) = cached_weight_from_community p"
  "cached_weight_to_community (node_moved g v nc p) = cached_weight_to_community p"
  "cached_weight_all_community (node_moved g v nc p) = cached_weight_all_community p"
  "cached_neigh_comms_from (node_moved g v nc p) = cached_neigh_comms_from p"
  "cached_neigh_comms_to (node_moved g v nc p) = cached_neigh_comms_to p"
  "cached_neigh_comms_all (node_moved g v nc p) = cached_neigh_comms_all p"
  by (simp_all add: node_moved_def Let_def stage_eqs edges_moved_def)

lemma node_moved_weights:
  "total_weight_in_all_comms (node_moved g v nc p) =
     total_weight_in_all_comms p +
     (\<Sum>ue\<leftarrow>incident g v IGRAPH_OUT. total_internal_gain g v (membership p ! v) nc (membership p) ue) +
     (\<Sum>ue\<leftarrow>incident g v IGRAPH_IN. total_internal_gain g v (membership p ! v) nc (membership p) ue)"
  "c < length (total_weight_in_comm p) \<Longrightarrow>
   total_weight_in_comm (node_moved g v nc p) ! c =
     total_weight_in_comm p ! c +
     (\<Sum>ue\<leftarrow>incident g v IGRAPH_OUT. internal_gain g v (membership p ! v) nc (membership p) ue c) +
     (\<Sum>ue\<leftarrow>incident g v IGRAPH_IN. internal_gain g v (membership p ! v) nc (membership p) ue c)"
  "c < length (total_weight_from_comm p) \<Longrightarrow>
   total_weight_from_comm (node_moved g v nc p) ! c =
     total_weight_from_comm p ! c +
     (\<Sum>ue\<leftarrow>incident g v IGRAPH_OUT. link_gain (membership p ! v) nc (edge_weight g (snd ue)) c)"
  "c < length (total_weight_to_comm p) \<Longrightarrow>
   total_weight_to_comm (node_moved g v nc p) ! c =
     total_weight_to_comm p ! c +
     (\<Sum>ue\<leftarrow>incident g v IGRAPH_IN. link_gain (membership p ! v) nc (edge_weight g (snd ue)) c)"
  by (simp_all add: node_moved_def Let_def stage_eqs edges_moved_def)


lemma members_update:
  assumes "v < n" and "v < length m"
  shows "{u. u < n \<and> m[v := nc] ! u = c} =
          (if c = nc then insert v {u. u < n \<and> m ! u = c} else {u. u < n \<and> m ! u = c} - {v})"
  using assms by (auto simp: nth_list_update)

lemma sum_members_update:
  fixes f :: "nat \<Rightarrow> nat"
  assumes "v < n" and "v < length m"
  shows "(\<Sum>u | u < n \<and> m[v := nc] ! u = c. f u) =
          (if c = nc
           then (if m ! v = c then (\<Sum>u | u < n \<and> m ! u = c. f u)
                 else (\<Sum>u | u < n \<and> m ! u = c. f u) + f v)
           else (if m ! v = c then (\<Sum>u | u < n \<and> m ! u = c. f u) - f v
                 else (\<Sum>u | u < n \<and> m ! u = c. f u)))"
proof -
  let ?A = "{u. u < n \<and> m ! u = c}"
  have fin: "finite ?A" by simp
  have mem: "v \<in> ?A \<longleftrightarrow> m ! v = c" using assms by simp
  show ?thesis
    unfolding members_update [OF assms]
    using fin assms by (simp add: sum.insert_if sum_diff1_nat insert_absorb)
qed

lemma member_size_le:
  fixes f :: "nat \<Rightarrow> nat"
  assumes "v < n"
  shows "f v \<le> (\<Sum>u | u < n \<and> m ! u = m ! v. f u)"
proof -
  have "v \<in> {u. u < n \<and> m ! u = m ! v}" using assms by simp
  moreover have "finite {u. u < n \<and> m ! u = m ! v}" by simp
  ultimately show ?thesis by (meson member_le_sum zero_le)
qed

lemma sub_size_t_le [simp]: "b \<le> a \<Longrightarrow> sub_size_t a b = a - b"
  by (simp add: sub_size_t_def)

lemma node_moved_ok:
  assumes ok: "partition_ok g p" and v: "v < vcount g" and nc: "nc < length (community p)"
  shows "partition_ok g (node_moved g v nc p)"
proof -
  let ?m = "membership p" and ?n = "vcount g" and ?C = "community p" and ?S = "csize_vec p"
  let ?oc = "?m ! v" and ?s = "node_size g v"
  from ok have len: "length ?m = ?n" "length ?S = length ?C"
    "length (total_weight_in_comm p) = length ?C"
    "length (total_weight_from_comm p) = length ?C"
    "length (total_weight_to_comm p) = length ?C"
    and rng: "\<forall>u < ?n. ?m ! u < length ?C"
    and C: "\<forall>c < length ?C. ?C ! c = {u. u < ?n \<and> ?m ! u = c}"
    and S: "\<forall>c < length ?C. ?S ! c = (\<Sum>u | u < ?n \<and> ?m ! u = c. node_size g u)"
    by (simp_all add: partition_ok_def)
  have oc: "?oc < length ?C" using rng v by simp
  have vm: "v < length ?m" using len v by simp
  have le: "?s \<le> ?S ! ?oc"
    using S oc member_size_le [OF v, of "node_size g" ?m] by simp
  have rng': "\<forall>u < ?n. ?m[v := nc] ! u < length ?C"
    using rng nc vm by (auto simp: nth_list_update)
  have C': "community (node_moved g v nc p) ! c = {u. u < ?n \<and> ?m[v := nc] ! u = c}"
    if "c < length ?C" for c
    unfolding members_update [OF v vm] node_moved_fields
    using that C oc nc by (auto simp: nth_list_update)
  have S': "csize_vec (node_moved g v nc p) ! c =
      (\<Sum>u | u < ?n \<and> ?m[v := nc] ! u = c. node_size g u)"
    if "c < length ?C" for c
    unfolding sum_members_update [OF v vm] node_moved_fields
    using that S oc nc len le by (auto simp: nth_list_update)
  show ?thesis
    unfolding partition_ok_def
    using len rng' C' S' by (simp add: node_moved_fields)
qed


lemma partition_ok_allocated:
  "partition_ok g p \<Longrightarrow> c < length (community p) \<Longrightarrow> comm_allocated p c"
  by (simp add: partition_ok_def comm_allocated_def)

lemma partition_ok_determined:
  assumes "partition_ok g p" and "partition_ok g q"
    and "membership q = membership p" and "length (community q) = length (community p)"
  shows "community q = community p" and "csize_vec q = csize_vec p"
proof -
  show "community q = community p"
    using assms by (intro nth_equalityI) (simp_all add: partition_ok_def)
  show "csize_vec q = csize_vec p"
    using assms by (intro nth_equalityI) (simp_all add: partition_ok_def)
qed

section \<open>Moving a node to its own community\<close>

lemma internal_gain_noop: "m ! v = c \<Longrightarrow> internal_gain g v c c m ue x = 0"
  by (cases "fst ue = v") (simp_all add: internal_gain_def)

lemma total_internal_gain_noop: "m ! v = c \<Longrightarrow> total_internal_gain g v c c m ue = 0"
  by (cases "fst ue = v") (simp_all add: total_internal_gain_def)

lemma link_gain_noop: "link_gain c c w x = 0"
  by (simp add: link_gain_def)

lemma node_moved_noop:
  assumes ok: "partition_ok g p" and v: "v < vcount g"
  shows "node_moved g v (membership p ! v) p = p"
proof -
  let ?oc = "membership p ! v" and ?q = "node_moved g v (membership p ! v) p"
  from ok v have oc: "?oc < length (community p)" and vm: "v < length (membership p)"
    by (simp_all add: partition_ok_def)
  have le: "node_size g v \<le> csize_vec p ! ?oc"
    using ok oc member_size_le [OF v, of "node_size g" "membership p"]
    by (simp add: partition_ok_def)
  have len: "length (csize_vec p) = length (community p)"
    using ok by (simp add: partition_ok_def)
  have m: "membership ?q = membership p"
    by (simp add: node_moved_fields)
  have okq: "partition_ok g ?q" by (rule node_moved_ok [OF ok v oc])
  have lc: "length (community ?q) = length (community p)"
    by (simp add: node_moved_fields)
  note cs = partition_ok_determined [OF ok okq m lc]
  have tpe: "total_possible_edges_in_all_comms ?q = total_possible_edges_in_all_comms p"
    by (simp add: node_moved_fields)
  have pool: "empty_communities ?q = empty_communities p"
    using oc len le by (simp add: node_moved_pool Let_def)
  have tot: "total_weight_in_all_comms ?q = total_weight_in_all_comms p"
    by (simp add: node_moved_weights total_internal_gain_noop)
  have win: "total_weight_in_comm ?q = total_weight_in_comm p"
    by (rule nth_equalityI) (simp_all add: node_moved_fields node_moved_weights internal_gain_noop)
  have wfrom: "total_weight_from_comm ?q = total_weight_from_comm p"
    by (rule nth_equalityI) (simp_all add: node_moved_fields node_moved_weights link_gain_noop)
  have wto: "total_weight_to_comm ?q = total_weight_to_comm p"
    by (rule nth_equalityI) (simp_all add: node_moved_fields node_moved_weights link_gain_noop)
  show ?thesis
    by (rule partition.equality) (simp_all add: m cs tpe pool tot win wfrom wto node_moved_cache)
qed

section \<open>The running total of possible edges\<close>

lemma move_node_cases:
  assumes "v < length (membership p)"
    and "comm_allocated p (membership p ! v)" and "comm_allocated p nc"
  shows "move_node g v nc p =
     (if csize_vec (remove_from_old g v (membership p ! v)
            (update_possible_edges g v (membership p ! v) nc p)) ! nc = 0 \<and>
         nc \<notin> set (empty_communities (remove_from_old g v (membership p ! v)
            (update_possible_edges g v (membership p ! v) nc p)))
      then Inl InvalidErase else Inr (node_moved g v nc p))"
proof -
  define oc where "oc = membership p ! v"
  define p0 where "p0 = remove_from_old g v oc (update_possible_edges g v oc nc p)"
  show ?thesis
  proof (cases "csize_vec p0 ! nc = 0 \<and> nc \<notin> set (empty_communities p0)")
    case True
    then have "take_from_pool nc p0 = Inl InvalidErase"
      by (simp add: take_from_pool_def)
    then have "move_node g v nc p = Inl InvalidErase"
      using assms
      by (simp add: move_node_def Let_def and_then_def oc_def [symmetric] p0_def [symmetric])
    then show ?thesis using True by (simp add: oc_def p0_def)
  next
    case False
    have "nc \<noteq> membership p ! v \<longrightarrow> csize_vec p ! nc = 0 \<longrightarrow> nc \<in> set (empty_communities p)"
      using False assms(2,3)
      by (auto simp: p0_def oc_def remove_from_old_eq update_possible_edges_eq
          comm_allocated_def split: if_splits)
    from move_node_closed [OF assms this]
    show ?thesis using False by (simp add: oc_def p0_def)
  qed
qed

lemma move_node_Inr:
  assumes "move_node g v nc p = Inr p'"
  shows "v < length (membership p)" and "comm_allocated p nc" and "p' = node_moved g v nc p"
proof -
  show v: "v < length (membership p)"
    using assms by (simp add: move_node_def split: if_splits)
  have al: "comm_allocated p (membership p ! v) \<and> comm_allocated p nc"
    using assms v by (simp add: move_node_def Let_def split: if_splits)
  then show "comm_allocated p nc" by simp
  show "p' = node_moved g v nc p"
    using assms move_node_cases [OF v, of nc g] al by (simp split: if_splits)
qed


lemma sum_nth_update:
  fixes F :: "nat \<Rightarrow> int"
  assumes "i < length S"
  shows "(\<Sum>c<length S. F (S[i := x] ! c)) = (\<Sum>c<length S. F (S ! c)) - F (S ! i) + F x"
proof -
  have fin: "finite {..<length S}" and i: "i \<in> {..<length S}" using assms by simp_all
  have "(\<Sum>c<length S. F (S[i := x] ! c)) =
      F (S[i := x] ! i) + (\<Sum>c\<in>{..<length S} - {i}. F (S[i := x] ! c))"
    by (rule sum.remove [OF fin i])
  also have "(\<Sum>c\<in>{..<length S} - {i}. F (S[i := x] ! c)) = (\<Sum>c\<in>{..<length S} - {i}. F (S ! c))"
    by (rule sum.cong) simp_all
  also have "F (S[i := x] ! i) = F x" using assms by simp
  finally have 1: "(\<Sum>c<length S. F (S[i := x] ! c)) = F x + (\<Sum>c\<in>{..<length S} - {i}. F (S ! c))" .
  have 2: "(\<Sum>c<length S. F (S ! c)) = F (S ! i) + (\<Sum>c\<in>{..<length S} - {i}. F (S ! c))"
    by (rule sum.remove [OF fin i])
  show ?thesis using 1 2 by simp
qed

lemma int_pairs: "int (n * (n - 1)) = int n * (int n - 1)"
  by (cases n) (simp_all add: algebra_simps)

lemma even_pairs: "2 * ((int n * (int n - 1)) div 2) = int n * (int n - 1)"
  by simp

lemma possible_edges_formula_int:
  "int (possible_edges_formula d sl n) =
     (if d then int n * (int n - 1) else (int n * (int n - 1)) div 2) + (if sl then int n else 0)"
proof -
  have h: "int (n * (n - 1) div 2) = (int n * (int n - 1)) div 2"
    by (simp only: zdiv_int int_pairs of_nat_numeral)
  show ?thesis
    by (cases d; cases sl;
        simp only: possible_edges_formula_def Let_def if_True if_False of_nat_add h int_pairs
          add_0_right)
qed

lemma possible_edges_delta:
  assumes "s \<le> a"
  shows "int (possible_edges_formula d sl (a - s)) + int (possible_edges_formula d sl (b + s)) -
         int (possible_edges_formula d sl a) - int (possible_edges_formula d sl b) =
         (2 * int s * (int b - int a + int s)) div (2 - (if d then 1 else 0))"
proof -
  define P where "P = (\<lambda>n::nat. int n * (int n - 1))"
  define T where "T = (\<lambda>n::nat. P n div 2)"
  define x where "x = int s * (int b - int a + int s)"
  have as: "int (a - s) = int a - int s" using assms by (simp add: of_nat_diff)
  have bs: "int (b + s) = int b + int s" by simp
  have poly: "P (a - s) + P (b + s) - P a - P b = 2 * x"
    unfolding P_def x_def as bs by (simp add: algebra_simps)
  have TP: "2 * T n = P n" for n
    unfolding T_def P_def by simp
  have "2 * (T (a - s) + T (b + s) - T a - T b) =
      2 * T (a - s) + 2 * T (b + s) - 2 * T a - 2 * T b" by simp
  also have "\<dots> = 2 * x" unfolding TP by (rule poly)
  finally have "2 * (T (a - s) + T (b + s) - T a - T b) = 2 * x" .
  then have half: "T (a - s) + T (b + s) - T a - T b = x" by simp
  have pe: "int (possible_edges_formula d sl n) =
      (if d then P n else T n) + (if sl then int n else 0)" for n
    unfolding possible_edges_formula_int P_def T_def by (rule refl)
  have dl: "(2 * int s * (int b - int a + int s)) div (2 - (if d then 1 else 0)) =
      (if d then 2 * x else x)"
    by (simp add: x_def)
  show ?thesis
    unfolding pe dl using poly half as by (cases d; cases sl; simp)
qed

lemma possible_edges_sum_vec:
  assumes "length (csize_vec p) = length (community p)"
  shows "(\<Sum>c<nb_communities p. int (possible_edges g (csize p c))) =
         (\<Sum>c<length (csize_vec p). int (possible_edges g (csize_vec p ! c)))"
  using assms by (simp add: nb_communities_def csize_def)

text \<open>Magnitudes: every size is at most the total size, and so are the sums of pairs.\<close>

lemma sizes_sum:
  assumes "partition_ok g p"
  shows "(\<Sum>c<length (community p). csize_vec p ! c) = total_size g"
proof -
  let ?n = "vcount g" and ?m = "membership p"
  have "(\<Sum>c<length (community p). csize_vec p ! c) =
      (\<Sum>c\<in>{..<length (community p)}. \<Sum>v | v \<in> {..<?n} \<and> ?m ! v = c. node_size g v)"
    using assms by (intro sum.cong) (simp_all add: partition_ok_def)
  also have "\<dots> = (\<Sum>v\<in>{..<?n}. node_size g v)"
    using assms by (intro sum.group) (auto simp: partition_ok_def)
  finally show ?thesis by (simp add: total_size_def)
qed

lemma size_le_total:
  assumes "partition_ok g p" and "c < length (community p)"
  shows "csize_vec p ! c \<le> total_size g"
proof -
  have "csize_vec p ! c \<le> (\<Sum>c<length (community p). csize_vec p ! c)"
    using assms(2) by (intro member_le_sum) simp_all
  then show ?thesis unfolding sizes_sum [OF assms(1)] .
qed

lemma node_size_le_total: "v < vcount g \<Longrightarrow> node_size g v \<le> total_size g"
  unfolding total_size_def by (intro member_le_sum) simp_all

lemma sum_squares_le:
  fixes f :: "'a \<Rightarrow> nat"
  assumes "finite A"
  shows "(\<Sum>i\<in>A. f i * f i) \<le> (\<Sum>i\<in>A. f i) * (\<Sum>i\<in>A. f i)"
  using assms
proof (induction A)
  case empty
  then show ?case by simp
next
  case (insert x F)
  have "(f x + sum f F) * (f x + sum f F) =
      f x * f x + sum f F * sum f F + 2 * f x * sum f F"
    by (simp add: algebra_simps)
  then show ?case using insert by simp
qed

lemma possible_edges_formula_le: "possible_edges_formula d sl n \<le> n * n"
proof -
  have 1: "n * (n - 1) + n = n * n" by (cases n) simp_all
  have 2: "n * (n - 1) div 2 \<le> n * (n - 1)" by simp
  show ?thesis
    using 1 2 by (cases d; cases sl; simp add: possible_edges_formula_def Let_def)
qed

lemma possible_edges_total_le:
  assumes "partition_ok g p" and "possible_edges g = possible_edges_formula d sl"
  shows "(\<Sum>c<nb_communities p. int (possible_edges g (csize p c))) \<le>
           int (total_size g * total_size g)"
proof -
  from assms(1) have len: "length (csize_vec p) = length (community p)"
    by (simp add: partition_ok_def)
  have "(\<Sum>c<length (community p). possible_edges g (csize_vec p ! c)) \<le>
      (\<Sum>c<length (community p). csize_vec p ! c * (csize_vec p ! c))"
    unfolding assms(2) by (intro sum_mono possible_edges_formula_le)
  also have "\<dots> \<le> (\<Sum>c<length (community p). csize_vec p ! c) *
      (\<Sum>c<length (community p). csize_vec p ! c)"
    by (intro sum_squares_le) simp
  finally have "(\<Sum>c<length (community p). possible_edges g (csize_vec p ! c)) \<le>
      total_size g * total_size g"
    unfolding sizes_sum [OF assms(1)] .
  then have "int (\<Sum>c<length (community p). possible_edges g (csize_vec p ! c)) \<le>
      int (total_size g * total_size g)"
    by (simp only: of_nat_le_iff)
  then show ?thesis
    unfolding possible_edges_sum_vec [OF len] len by simp
qed

text \<open>Below \<open>2\<^sup>5\<^sup>3\<close> the arithmetic of \<^verbatim>\<open>double\<close> on integers is exact.\<close>

lemma delta_exact:
  assumes "s \<le> a" and "a \<le> N" and "b \<le> N" and "2 * (N * N) < 2 ^ 53"
  shows "delta_possible_edges_in_comms g s b a =
           (2 * int s * (int b - int a + int s)) div (2 - (if is_directed g then 1 else 0))"
proof -
  define x where "x = int b - int a + int s"
  have NN: "int N \<le> int N * int N" by (cases N) simp_all
  have "int (2 * (N * N)) < int (2 ^ 53)" using assms(4) by (simp only: of_nat_less_iff)
  then have big: "2 * (int N * int N) < 2 ^ 53" by simp
  have s: "\<bar>int s\<bar> \<le> int N" using assms(1,2) by simp
  have x: "\<bar>x\<bar> \<le> int N" using assms(1,2,3) by (simp add: x_def abs_le_iff)
  have "\<bar>int s * x\<bar> \<le> int N * int N"
    unfolding abs_mult using s x by (intro mult_mono) simp_all
  moreover have "\<bar>2 * int s * x\<bar> = 2 * \<bar>int s * x\<bar>" by (simp add: abs_mult)
  ultimately have p: "\<bar>2 * int s * x\<bar> < 2 ^ 53" using big by linarith
  have 1: "double_of_int (int s) = int s"
    using s NN big by (intro double_of_int_exact) linarith
  have 2: "double_of_int x = x"
    using x NN big by (intro double_of_int_exact) linarith
  have 3: "double_of_int (2 * int s * x) = 2 * int s * x"
    using p by (rule double_of_int_exact)
  show ?thesis
    unfolding delta_possible_edges_in_comms_def x_def [symmetric] 1 2 3 by (rule refl)
qed


lemma node_moved_possible_edges:
  assumes ok: "partition_ok g p" and v: "v < vcount g" and nc: "nc < length (community p)"
    and pe: "possible_edges g = possible_edges_formula (is_directed g) sl"
    and small: "2 * (total_size g * total_size g) < 2 ^ 53"
    and inv: "total_possible_edges_in_all_comms p =
                (\<Sum>c<nb_communities p. int (possible_edges g (csize p c)))"
  shows "total_possible_edges_in_all_comms (node_moved g v nc p) =
           (\<Sum>c<nb_communities (node_moved g v nc p).
              int (possible_edges g (csize (node_moved g v nc p) c)))"
proof -
  let ?S = "csize_vec p" and ?oc = "membership p ! v" and ?s = "node_size g v"
  let ?F = "\<lambda>x. int (possible_edges g x)"
  let ?q = "node_moved g v nc p"
  let ?N = "total_size g"
  from ok v have oc: "?oc < length (community p)" by (simp add: partition_ok_def)
  have len: "length ?S = length (community p)" using ok by (simp add: partition_ok_def)
  have le: "?s \<le> ?S ! ?oc"
    using ok oc member_size_le [OF v, of "node_size g" "membership p"]
    by (simp add: partition_ok_def)
  have okq: "partition_ok g ?q" by (rule node_moved_ok [OF ok v nc])
  then have lenq: "length (csize_vec ?q) = length (community ?q)" by (simp add: partition_ok_def)
  have inv': "total_possible_edges_in_all_comms p = (\<Sum>c<length ?S. ?F (?S ! c))"
    using inv possible_edges_sum_vec [OF len] by simp
  have "int (?N * ?N) < int (2 ^ 53)" using small by (simp only: of_nat_less_iff)
  then have big: "int (?N * ?N) < 2 ^ 53" by simp
  have "total_possible_edges_in_all_comms ?q = (\<Sum>c<length (csize_vec ?q). ?F (csize_vec ?q ! c))"
  proof (cases "nc = ?oc")
    case True
    then have "csize_vec ?q = ?S"
      using le oc len by (simp add: node_moved_fields)
    then show ?thesis using True inv' by (simp add: node_moved_fields)
  next
    case False
    let ?S1 = "?S[?oc := ?S ! ?oc - ?s]"
    let ?d = "(2 * int ?s * (int (?S ! nc) - int (?S ! ?oc) + int ?s))
                div (2 - (if is_directed g then 1 else 0))"
    have S': "csize_vec ?q = ?S1[nc := ?S ! nc + ?s]"
      using False le by (simp add: node_moved_fields)
    have 1: "(\<Sum>c<length ?S. ?F (?S1 ! c)) = (\<Sum>c<length ?S. ?F (?S ! c)) - ?F (?S ! ?oc) + ?F (?S ! ?oc - ?s)"
      using oc len by (intro sum_nth_update) simp
    have "(\<Sum>c<length ?S1. ?F (?S1[nc := ?S ! nc + ?s] ! c)) =
        (\<Sum>c<length ?S1. ?F (?S1 ! c)) - ?F (?S1 ! nc) + ?F (?S ! nc + ?s)"
      using nc len by (intro sum_nth_update) simp
    then have 2: "(\<Sum>c<length ?S. ?F (?S1[nc := ?S ! nc + ?s] ! c)) =
        (\<Sum>c<length ?S. ?F (?S1 ! c)) - ?F (?S ! nc) + ?F (?S ! nc + ?s)"
      using False by simp
    have d: "?F (?S ! ?oc - ?s) + ?F (?S ! nc + ?s) - ?F (?S ! ?oc) - ?F (?S ! nc) = ?d"
      unfolding pe by (rule possible_edges_delta [OF le])
    have exact: "total_possible_edges_in_all_comms p + ?d =
        (\<Sum>c<length ?S. ?F (?S1[nc := ?S ! nc + ?s] ! c))"
      unfolding 2 1 inv' using d by simp
    have dl: "delta_possible_edges_in_comms g ?s (?S ! nc) (?S ! ?oc) = ?d"
      using size_le_total [OF ok oc] size_le_total [OF ok nc] small
      by (intro delta_exact [OF le]) simp_all
    have "0 \<le> (\<Sum>c<nb_communities p. ?F (csize p c))" by (rule sum_nonneg) simp
    then have before: "\<bar>total_possible_edges_in_all_comms p\<bar> < 2 ^ 53"
      using possible_edges_total_le [OF ok pe] big unfolding inv by linarith
    have "(\<Sum>c<length ?S. ?F (?S1[nc := ?S ! nc + ?s] ! c)) =
        (\<Sum>c<nb_communities ?q. ?F (csize ?q c))"
      unfolding possible_edges_sum_vec [OF lenq] S' by simp
    moreover have "0 \<le> (\<Sum>c<nb_communities ?q. ?F (csize ?q c))" by (rule sum_nonneg) simp
    ultimately have after: "\<bar>total_possible_edges_in_all_comms p + ?d\<bar> < 2 ^ 53"
      using possible_edges_total_le [OF okq pe] big unfolding exact by linarith
    have "total_possible_edges_in_all_comms ?q =
        double_of_int (double_of_int (total_possible_edges_in_all_comms p) + ?d)"
      using False by (simp add: node_moved_fields dl)
    also have "\<dots> = total_possible_edges_in_all_comms p + ?d"
      unfolding double_of_int_exact [OF before] by (rule double_of_int_exact [OF after])
    finally show ?thesis unfolding exact S' by simp
  qed
  then show ?thesis unfolding possible_edges_sum_vec [OF lenq] .
qed

lemma move_nodes_invariant:
  assumes "move_nodes g moves p0 = Inr p"
    and "partition_ok g p0"
    and "possible_edges g = possible_edges_formula (is_directed g) sl"
    and "2 * (total_size g * total_size g) < 2 ^ 53"
    and "total_possible_edges_in_all_comms p0 =
           (\<Sum>c<nb_communities p0. int (possible_edges g (csize p0 c)))"
  shows "partition_ok g p \<and>
         total_possible_edges_in_all_comms p =
           (\<Sum>c<nb_communities p. int (possible_edges g (csize p c)))"
  using assms
proof (induction moves arbitrary: p0)
  case Nil
  then show ?case by simp
next
  case (Cons vc moves)
  from Cons.prems(1) obtain p1 where p1: "move_node g (fst vc) (snd vc) p0 = Inr p1"
    and rest: "move_nodes g moves p1 = Inr p"
    by (auto simp: and_then_def split: sum.splits)
  note inr = move_node_Inr [OF p1]
  have v: "fst vc < vcount g" using inr(1) Cons.prems(2) by (simp add: partition_ok_def)
  have nc: "snd vc < length (community p0)" using inr(2) by (simp add: comm_allocated_def)
  have ok1: "partition_ok g p1"
    unfolding inr(3) by (rule node_moved_ok [OF Cons.prems(2) v nc])
  have pe1: "total_possible_edges_in_all_comms p1 =
           (\<Sum>c<nb_communities p1. int (possible_edges g (csize p1 c)))"
    unfolding inr(3)
    by (rule node_moved_possible_edges
        [OF Cons.prems(2) v nc Cons.prems(3) Cons.prems(4) Cons.prems(5)])
  show ?case by (rule Cons.IH [OF rest ok1 Cons.prems(3) Cons.prems(4) pe1])
qed


section \<open>The example states satisfy the data model\<close>

lemma ex_singletons_ok: "partition_ok ex_graph ex_single"
  using ex_singletons unfolding create_singletons_def
  by (rule init_admin_Inr_ok) (simp add: ex_graph_vcount)

lemma ex_merged_ok: "partition_ok ex_graph ex_merged"
proof -
  note inr = move_node_Inr [OF ex_move_0_1]
  have "partition_ok ex_graph (node_moved ex_graph 0 1 ex_single)"
    using inr(2) by (intro node_moved_ok [OF ex_singletons_ok]) (simp_all add: ex_graph_vcount comm_allocated_def)
  then show ?thesis using inr(3) by simp
qed

lemma ex_create_singletons: "create ex_graph [0, 1] = Inr ex_single"
  using ex_singletons by (simp add: create_def create_singletons_def ex_graph_vcount upt_0_2)

section \<open>The neighbour-community cache\<close>

lemma cache_reset_length [simp]: "length (cache_reset ns cw) = length cw"
  unfolding cache_reset_def by (induction ns arbitrary: cw) simp_all

lemma cache_reset_nth:
  "c < length cw \<Longrightarrow> cache_reset ns cw ! c = (if c \<in> set ns then 0 else cw ! c)"
  unfolding cache_reset_def
  by (induction ns arbitrary: cw) (auto simp: nth_list_update)

lemma cache_reset_zero:
  assumes "cache_ok n cw ns"
  shows "cache_reset ns cw = replicate n 0"
proof (rule nth_equalityI)
  show "length (cache_reset ns cw) = length (replicate n (0::real))"
    using assms by (simp add: cache_ok_def)
next
  fix c assume "c < length (cache_reset ns cw)"
  then have c: "c < n" "c < length cw" using assms by (simp_all add: cache_ok_def)
  then show "cache_reset ns cw ! c = replicate n 0 ! c"
    using assms by (auto simp: cache_reset_nth cache_ok_def)
qed

lemma cache_edges_length [simp]:
  "length (fst (fold (cache_edge g v m) es st)) = length (fst st)"
  by (induction es arbitrary: st) (simp_all add: cache_edge_def Let_def)

lemma cache_edges_nth:
  assumes "\<forall>ue \<in> set es. m ! fst ue < length (fst st)" and "c < length (fst st)"
  shows "fst (fold (cache_edge g v m) es st) ! c =
           fst st ! c + sum_list (map (cache_weight g v) (filter (\<lambda>ue. m ! fst ue = c) es))"
  using assms
proof (induction es arbitrary: st)
  case Nil
  then show ?case by simp
next
  case (Cons ue es)
  let ?st = "cache_edge g v m ue st"
  have l: "length (fst ?st) = length (fst st)" by (simp add: cache_edge_def Let_def)
  have 1: "fst ?st ! c = fst st ! c + (if m ! fst ue = c then cache_weight g v ue else 0)"
    using Cons.prems by (auto simp: cache_edge_def Let_def nth_add_at)
  have "fst (fold (cache_edge g v m) es ?st) ! c =
      fst ?st ! c + sum_list (map (cache_weight g v) (filter (\<lambda>ue. m ! fst ue = c) es))"
    using Cons.prems l by (intro Cons.IH) simp_all
  then show ?case using 1 by simp
qed

text \<open>
  The weights that \<^verbatim>\<open>cache_neigh_communities\<close> adds up for community \<open>c\<close> are those of the
  direct recomputation.
\<close>

lemma cache_weights_direct:
  "sum_list (map (cache_weight g v) (filter (\<lambda>ue. m ! fst ue = c) (incident g v mode))) =
     direct_weight g mode m v c"
proof -
  have "sum_list (map (cache_weight g v) (filter (\<lambda>ue. m ! fst ue = c) es)) =
      (\<Sum>ue \<leftarrow> es.
        if m ! fst ue = c
        then (if fst ue = v \<and> \<not> is_directed g
              then edge_weight g (snd ue) / 2 else edge_weight g (snd ue))
        else 0)" for es :: "(nat \<times> nat) list"
    by (induction es) (simp_all add: cache_weight_def Let_def)
  then show ?thesis by (simp only: direct_weight_def incident_def)
qed

lemma cache_edges_listed:
  assumes "\<forall>ue \<in> set es. m ! fst ue < length (fst st)"
    and "\<forall>c < length (fst st). fst st ! c \<noteq> 0 \<longrightarrow> c \<in> set (snd st)"
    and "\<forall>c \<in> set (snd st). c < length (fst st)"
  shows "(\<forall>c < length (fst st). fst (fold (cache_edge g v m) es st) ! c \<noteq> 0 \<longrightarrow>
            c \<in> set (snd (fold (cache_edge g v m) es st))) \<and>
         (\<forall>c \<in> set (snd (fold (cache_edge g v m) es st)). c < length (fst st))"
  using assms
proof (induction es arbitrary: st)
  case Nil
  then show ?case by simp
next
  case (Cons ue es)
  let ?st = "cache_edge g v m ue st"
  have l: "length (fst ?st) = length (fst st)" by (simp add: cache_edge_def Let_def)
  have a: "\<forall>ue \<in> set es. m ! fst ue < length (fst ?st)" using Cons.prems(1) l by simp
  have b: "\<forall>c < length (fst ?st). fst ?st ! c \<noteq> 0 \<longrightarrow> c \<in> set (snd ?st)"
    using Cons.prems by (auto simp: cache_edge_def Let_def nth_add_at)
  have c: "\<forall>c \<in> set (snd ?st). c < length (fst ?st)"
    using Cons.prems by (auto simp: cache_edge_def Let_def)
  from Cons.IH [OF a b c] show ?case using l by simp
qed

lemma cache_fill_result:
  assumes cache: "cache_ok n cw ns"
    and len: "length m = vcount g"
    and nb: "\<forall>u \<in> set (get_neighbours g v mode). u < vcount g"
    and ids: "\<forall>u < vcount g. m ! u < n"
  shows "\<exists>cw' ns'. cache_fill g v mode m cw ns = Inr (cw', ns') \<and> cache_ok n cw' ns' \<and>
           (\<forall>c < n. cw' ! c = direct_weight g mode m v c)"
proof -
  let ?es = "incident g v mode"
  let ?st = "(cache_reset ns cw, []::nat list)"
  let ?r = "fold (cache_edge g v m) ?es ?st"
  have lcw: "length cw = n" using cache by (simp add: cache_ok_def)
  have nbs: "\<forall>ue \<in> set ?es. fst ue < vcount g"
    using nb by (auto simp: incident_def dest: set_zip_leftD)
  have g1: "list_all (\<lambda>it. it < length cw) ns"
    using cache by (simp add: cache_ok_def list_all_iff)
  have g2: "list_all (\<lambda>ue. fst ue < length m \<and> m ! fst ue < length cw) ?es"
    using nbs ids len lcw by (simp add: list_all_iff)
  have run: "cache_fill g v mode m cw ns = Inr ?r"
    using g1 g2 by (simp add: cache_fill_def Let_def)
  have z: "cache_reset ns cw = replicate n 0" by (rule cache_reset_zero [OF cache])
  have e: "\<forall>ue \<in> set ?es. m ! fst ue < length (fst ?st)"
    using nbs ids lcw by simp
  have nth: "fst ?r ! c = direct_weight g mode m v c" if "c < n" for c
    using cache_edges_nth [OF e, of c g v] that lcw by (simp add: z cache_weights_direct)
  have "(\<forall>c < length (fst ?st). fst ?r ! c \<noteq> 0 \<longrightarrow> c \<in> set (snd ?r)) \<and>
        (\<forall>c \<in> set (snd ?r). c < length (fst ?st))"
  proof (rule cache_edges_listed [OF e])
    show "\<forall>c<length (fst ?st). fst ?st ! c \<noteq> 0 \<longrightarrow> c \<in> set (snd ?st)"
      by (simp add: z)
    show "\<forall>c\<in>set (snd ?st). c < length (fst ?st)" by simp
  qed
  then have ok: "cache_ok n (fst ?r) (snd ?r)"
    using lcw by (simp add: cache_ok_def)
  show ?thesis
    using run ok nth by (intro exI [of _ "fst ?r"] exI [of _ "snd ?r"]) simp
qed

lemma graph_ok_neighbours:
  "graph_ok g \<Longrightarrow> \<forall>u \<in> set (get_neighbours g v mode). u < vcount g"
  by (simp add: graph_ok_def)

lemma weight_to_comm_cold_warm:
  assumes g: "graph_ok g" and ids: "ids_below_vcount g p"
    and cache: "cache_ok (vcount g) (cached_weight_to_community p) (cached_neigh_comms_to p)"
    and cold: "current_node_cache_community_to p \<noteq> v"
  shows "\<exists>cw' ns'. cache_ok (vcount g) cw' ns' \<and>
           (\<forall>c < vcount g.
              weight_to_comm g v c p =
                Inr (direct_weight g IGRAPH_OUT (membership p) v c,
                     p\<lparr>cached_weight_to_community := cw', cached_neigh_comms_to := ns',
                       current_node_cache_community_to := v\<rparr>) \<and>
              weight_to_comm g v c
                  (p\<lparr>cached_weight_to_community := cw', cached_neigh_comms_to := ns',
                     current_node_cache_community_to := v\<rparr>) =
                Inr (direct_weight g IGRAPH_OUT (membership p) v c,
                     p\<lparr>cached_weight_to_community := cw', cached_neigh_comms_to := ns',
                       current_node_cache_community_to := v\<rparr>))"
proof -
  from ids have len: "length (membership p) = vcount g"
    and below: "\<forall>u < vcount g. membership p ! u < vcount g"
    by (simp_all add: ids_below_vcount_def)
  from cache_fill_result [OF cache len graph_ok_neighbours [OF g] below]
  obtain cw' ns' where fill:
    "cache_fill g v IGRAPH_OUT (membership p) (cached_weight_to_community p)
       (cached_neigh_comms_to p) = Inr (cw', ns')"
    "cache_ok (vcount g) cw' ns'"
    "\<forall>c < vcount g. cw' ! c = direct_weight g IGRAPH_OUT (membership p) v c"
    by blast
  define p1 where "p1 = p\<lparr>cached_weight_to_community := cw', cached_neigh_comms_to := ns',
    current_node_cache_community_to := v\<rparr>"
  have lcw: "length cw' = vcount g" using fill(2) by (simp add: cache_ok_def)
  have 1: "weight_to_comm g v c p = Inr (direct_weight g IGRAPH_OUT (membership p) v c, p1)"
    if "c < vcount g" for c
    using that cold fill(1,3) lcw
    by (simp add: weight_to_comm_def cache_neigh_communities_def p1_def)
  have 2: "weight_to_comm g v c p1 = Inr (direct_weight g IGRAPH_OUT (membership p) v c, p1)"
    if "c < vcount g" for c
    using that fill(3) lcw by (simp add: weight_to_comm_def p1_def)
  show ?thesis
    using fill(2) 1 2 unfolding p1_def by blast
qed

lemma weight_from_comm_cold_warm:
  assumes g: "graph_ok g" and ids: "ids_below_vcount g p"
    and cache: "cache_ok (vcount g) (cached_weight_from_community p) (cached_neigh_comms_from p)"
    and cold: "current_node_cache_community_from p \<noteq> v"
  shows "\<exists>cw' ns'. cache_ok (vcount g) cw' ns' \<and>
           (\<forall>c < vcount g.
              weight_from_comm g v c p =
                Inr (direct_weight g IGRAPH_IN (membership p) v c,
                     p\<lparr>cached_weight_from_community := cw', cached_neigh_comms_from := ns',
                       current_node_cache_community_from := v\<rparr>) \<and>
              weight_from_comm g v c
                  (p\<lparr>cached_weight_from_community := cw', cached_neigh_comms_from := ns',
                     current_node_cache_community_from := v\<rparr>) =
                Inr (direct_weight g IGRAPH_IN (membership p) v c,
                     p\<lparr>cached_weight_from_community := cw', cached_neigh_comms_from := ns',
                       current_node_cache_community_from := v\<rparr>))"
proof -
  from ids have len: "length (membership p) = vcount g"
    and below: "\<forall>u < vcount g. membership p ! u < vcount g"
    by (simp_all add: ids_below_vcount_def)
  from cache_fill_result [OF cache len graph_ok_neighbours [OF g] below]
  obtain cw' ns' where fill:
    "cache_fill g v IGRAPH_IN (membership p) (cached_weight_from_community p)
       (cached_neigh_comms_from p) = Inr (cw', ns')"
    "cache_ok (vcount g) cw' ns'"
    "\<forall>c < vcount g. cw' ! c = direct_weight g IGRAPH_IN (membership p) v c"
    by blast
  define p1 where "p1 = p\<lparr>cached_weight_from_community := cw', cached_neigh_comms_from := ns',
    current_node_cache_community_from := v\<rparr>"
  have lcw: "length cw' = vcount g" using fill(2) by (simp add: cache_ok_def)
  have 1: "weight_from_comm g v c p = Inr (direct_weight g IGRAPH_IN (membership p) v c, p1)"
    if "c < vcount g" for c
    using that cold fill(1,3) lcw
    by (simp add: weight_from_comm_def cache_neigh_communities_def p1_def)
  have 2: "weight_from_comm g v c p1 = Inr (direct_weight g IGRAPH_IN (membership p) v c, p1)"
    if "c < vcount g" for c
    using that fill(3) lcw by (simp add: weight_from_comm_def p1_def)
  show ?thesis
    using fill(2) 1 2 unfolding p1_def by blast
qed

lemma weight_to_comm_warm:
  "current_node_cache_community_to q = v \<Longrightarrow> c < length (cached_weight_to_community q) \<Longrightarrow>
     weight_to_comm g v c q = Inr (cached_weight_to_community q ! c, q)"
  by (simp add: weight_to_comm_def)

lemma weight_from_comm_warm:
  "current_node_cache_community_from q = v \<Longrightarrow> c < length (cached_weight_from_community q) \<Longrightarrow>
     weight_from_comm g v c q = Inr (cached_weight_from_community q ! c, q)"
  by (simp add: weight_from_comm_def)

lemma resize_same: "length xs = n \<Longrightarrow> resize n x xs = xs"
  by (simp add: resize_def)

lemma resize_Nil: "resize n x [] = replicate n x"
  by (simp add: resize_def)

lemma init_admin_caches_ok:
  assumes "caches_ok g p"
  shows "caches_ok g (init_admin_body g p)"
proof -
  from assms have l: "length (cached_weight_from_community p) = vcount g"
    "length (cached_weight_to_community p) = vcount g"
    "length (cached_weight_all_community p) = vcount g"
    by (simp_all add: caches_ok_def cache_ok_def)
  show ?thesis
    using assms unfolding caches_ok_def init_admin_cache resize_same [OF l(1)]
      resize_same [OF l(2)] resize_same [OF l(3)] .
qed

lemma fresh_caches_ok: "caches_ok g (init_admin_body g (fresh\<lparr>membership := m\<rparr>))"
  by (simp add: caches_ok_def init_admin_cache cache_ok_def resize_Nil fresh_def)

lemma create_Inr:
  assumes "create g m = Inr p"
  shows "length m = vcount g" and "p = init_admin_body g (fresh\<lparr>membership := m\<rparr>)"
    and "\<forall>v<vcount g. m ! v < count_comms m (vcount g)"
proof -
  show l: "length m = vcount g" using assms by (simp add: create_def split: if_splits)
  then have i: "init_admin g (fresh\<lparr>membership := m\<rparr>) = Inr p"
    using assms by (simp add: create_def)
  show "p = init_admin_body g (fresh\<lparr>membership := m\<rparr>)" by (rule init_admin_Inr(1) [OF i])
  show "\<forall>v<vcount g. m ! v < count_comms m (vcount g)"
    using init_admin_Inr(3) [OF i] by simp
qed

lemma create_caches_ok:
  assumes "create g m = Inr p"
  shows "caches_ok g p"
  unfolding create_Inr(2) [OF assms] by (rule fresh_caches_ok)

lemma create_singletons_caches_ok:
  assumes "create_singletons g = Inr p"
  shows "caches_ok g p"
  unfolding init_admin_Inr(1) [OF assms [unfolded create_singletons_def]]
  by (rule fresh_caches_ok)

lemma ex_graph_ok: "graph_ok ex_graph"
  by (simp add: graph_ok_def ex_graph_def)

lemma ex_singletons_ids: "ids_below_vcount ex_graph ex_single"
  by (simp add: ids_below_vcount_def ex_single_def ex_graph_vcount less_2_cases_iff)

lemma ex_singletons_caches: "caches_ok ex_graph ex_single"
  by (rule create_singletons_caches_ok [OF ex_singletons])

section \<open>Bounds of the cache vectors\<close>

lemma cache_fill_length:
  "cache_fill g v mode m cw ns = Inr r \<Longrightarrow> length (fst r) = length cw"
  by (auto simp: cache_fill_def Let_def split: if_splits)

lemma cache_fill_error:
  "cache_fill g v mode m cw ns = Inl err \<Longrightarrow> err = OutOfBounds"
  by (auto simp: cache_fill_def Let_def split: if_splits)

lemma weight_to_comm_out_of_bounds:
  assumes "length (cached_weight_to_community p) = vcount g" and "\<not> c < vcount g"
  shows "weight_to_comm g v c p = Inl OutOfBounds"
proof (cases "current_node_cache_community_to p = v")
  case True
  then show ?thesis using assms by (simp add: weight_to_comm_def)
next
  case False
  show ?thesis
  proof (cases "cache_fill g v IGRAPH_OUT (membership p) (cached_weight_to_community p)
                  (cached_neigh_comms_to p)")
    case (Inl err)
    then show ?thesis
      using False cache_fill_error [OF Inl]
      by (simp add: weight_to_comm_def cache_neigh_communities_def)
  next
    case (Inr r)
    then show ?thesis
      using False assms cache_fill_length [OF Inr]
      by (simp add: weight_to_comm_def cache_neigh_communities_def)
  qed
qed

lemma weight_from_comm_out_of_bounds:
  assumes "length (cached_weight_from_community p) = vcount g" and "\<not> c < vcount g"
  shows "weight_from_comm g v c p = Inl OutOfBounds"
proof (cases "current_node_cache_community_from p = v")
  case True
  then show ?thesis using assms by (simp add: weight_from_comm_def)
next
  case False
  show ?thesis
  proof (cases "cache_fill g v IGRAPH_IN (membership p) (cached_weight_from_community p)
                  (cached_neigh_comms_from p)")
    case (Inl err)
    then show ?thesis
      using False cache_fill_error [OF Inl]
      by (simp add: weight_from_comm_def cache_neigh_communities_def)
  next
    case (Inr r)
    then show ?thesis
      using False assms cache_fill_length [OF Inr]
      by (simp add: weight_from_comm_def cache_neigh_communities_def)
  qed
qed

lemma weight_to_comm_defined:
  assumes "graph_ok g" and "ids_below_vcount g p" and "caches_ok g p"
  shows "(\<exists>r. weight_to_comm g v c p = Inr r) \<longleftrightarrow> c < vcount g"
proof -
  have ok: "cache_ok (vcount g) (cached_weight_to_community p) (cached_neigh_comms_to p)"
    using assms(3) unfolding caches_ok_def by blast
  then have len: "length (cached_weight_to_community p) = vcount g"
    unfolding cache_ok_def by blast
  show ?thesis
  proof (cases "c < vcount g")
    case False
    from weight_to_comm_out_of_bounds [OF len False]
    have "weight_to_comm g v c p = Inl OutOfBounds" .
    then show ?thesis using False by simp
  next
    case True
    have "\<exists>r. weight_to_comm g v c p = Inr r"
    proof (cases "current_node_cache_community_to p = v")
      case same: True
      have "weight_to_comm g v c p = Inr (cached_weight_to_community p ! c, p)"
        unfolding weight_to_comm_def using same True len by simp
      then show ?thesis by blast
    next
      case False
      from weight_to_comm_cold_warm [OF assms(1,2) ok False] True show ?thesis by blast
    qed
    then show ?thesis using True by simp
  qed
qed

lemma weight_from_comm_defined:
  assumes "graph_ok g" and "ids_below_vcount g p" and "caches_ok g p"
  shows "(\<exists>r. weight_from_comm g v c p = Inr r) \<longleftrightarrow> c < vcount g"
proof -
  have ok: "cache_ok (vcount g) (cached_weight_from_community p) (cached_neigh_comms_from p)"
    using assms(3) unfolding caches_ok_def by blast
  then have len: "length (cached_weight_from_community p) = vcount g"
    unfolding cache_ok_def by blast
  show ?thesis
  proof (cases "c < vcount g")
    case False
    from weight_from_comm_out_of_bounds [OF len False]
    have "weight_from_comm g v c p = Inl OutOfBounds" .
    then show ?thesis using False by simp
  next
    case True
    have "\<exists>r. weight_from_comm g v c p = Inr r"
    proof (cases "current_node_cache_community_from p = v")
      case same: True
      have "weight_from_comm g v c p = Inr (cached_weight_from_community p ! c, p)"
        unfolding weight_from_comm_def using same True len by simp
      then show ?thesis by blast
    next
      case False
      from weight_from_comm_cold_warm [OF assms(1,2) ok False] True show ?thesis by blast
    qed
    then show ?thesis using True by simp
  qed
qed

lemma count_comms_below:
  assumes "\<forall>u < n. m ! u < k"
  shows "count_comms m n \<le> k"
  using count_comms_attained [of m n] assms by auto

lemma create_safe:
  assumes "create g m = Inr p" and "\<forall>u < vcount g. m ! u < vcount g"
  shows "safe_state g p"
proof -
  note m = create_Inr(1) [OF assms(1)] and p = create_Inr(2) [OF assms(1)]
  have "ids_below_vcount g p"
    using m assms(2) by (simp add: ids_below_vcount_def p init_admin_fields)
  moreover have "caches_ok g p" by (rule create_caches_ok [OF assms(1)])
  moreover have "nb_communities p \<le> vcount g"
    using count_comms_below [OF assms(2)]
    by (simp add: nb_communities_def p init_admin_fields)
  ultimately show ?thesis by (simp add: safe_state_def)
qed

lemma move_node_safe:
  assumes "safe_state g p" and "move_node g v nc p = Inr p'"
  shows "safe_state g p'"
proof -
  note inr = move_node_Inr [OF assms(2)]
  from assms(1) have ids: "ids_below_vcount g p" and c: "caches_ok g p"
    and nb: "nb_communities p \<le> vcount g"
    by (simp_all add: safe_state_def)
  have nc: "nc < vcount g"
    using inr(2) nb by (simp add: comm_allocated_def nb_communities_def)
  have "ids_below_vcount g p'"
    using ids nc inr(1) unfolding inr(3)
    by (auto simp: ids_below_vcount_def node_moved_fields nth_list_update)
  moreover have "caches_ok g p'"
    using c unfolding inr(3) by (simp add: caches_ok_def node_moved_cache)
  moreover have "nb_communities p' \<le> vcount g"
    using nb unfolding inr(3) by (simp add: nb_communities_def node_moved_fields)
  ultimately show ?thesis by (simp add: safe_state_def)
qed

lemma add_empty_community_Inr:
  assumes "add_empty_community g p = (Inr c, p')"
  shows "length (community p) < vcount g" and "c = length (community p)"
    and "membership p' = membership p"
    and "length (community p') = length (community p) + 1"
    and "cached_weight_from_community p' = cached_weight_from_community p"
    and "cached_weight_to_community p' = cached_weight_to_community p"
    and "cached_weight_all_community p' = cached_weight_all_community p"
    and "cached_neigh_comms_from p' = cached_neigh_comms_from p"
    and "cached_neigh_comms_to p' = cached_neigh_comms_to p"
    and "cached_neigh_comms_all p' = cached_neigh_comms_all p"
proof -
  define Q where "Q = snd (add_empty_community g p)"
  show 1: "length (community p) < vcount g"
  proof (rule ccontr)
    assume "\<not> length (community p) < vcount g"
    then have "fst (add_empty_community g p) = Inl CapacityExceeded"
      by (simp add: add_empty_community_def Let_def)
    with assms show False by simp
  qed
  have c: "fst (add_empty_community g p) = Inr (length (community p))"
    using 1 by (simp add: add_empty_community_def Let_def)
  have p': "p' = Q" using assms by (simp add: Q_def)
  show "c = length (community p)" using c assms by simp
  show "membership p' = membership p"
    unfolding p' Q_def using 1 by (simp add: add_empty_community_def Let_def)
  show "length (community p') = length (community p) + 1"
    unfolding p' Q_def using 1 by (simp add: add_empty_community_def Let_def)
  show "cached_weight_from_community p' = cached_weight_from_community p"
    unfolding p' Q_def using 1 by (simp add: add_empty_community_def Let_def)
  show "cached_weight_to_community p' = cached_weight_to_community p"
    unfolding p' Q_def using 1 by (simp add: add_empty_community_def Let_def)
  show "cached_weight_all_community p' = cached_weight_all_community p"
    unfolding p' Q_def using 1 by (simp add: add_empty_community_def Let_def)
  show "cached_neigh_comms_from p' = cached_neigh_comms_from p"
    unfolding p' Q_def using 1 by (simp add: add_empty_community_def Let_def)
  show "cached_neigh_comms_to p' = cached_neigh_comms_to p"
    unfolding p' Q_def using 1 by (simp add: add_empty_community_def Let_def)
  show "cached_neigh_comms_all p' = cached_neigh_comms_all p"
    unfolding p' Q_def using 1 by (simp add: add_empty_community_def Let_def)
qed

lemma add_empty_community_Inl:
  assumes "add_empty_community g p = (Inl err, p')"
  shows "err = CapacityExceeded" and "vcount g \<le> length (community p)"
    and "p' = p\<lparr>community := community p @ [{}]\<rparr>"
proof -
  show 1: "vcount g \<le> length (community p)"
  proof (rule ccontr)
    assume "\<not> vcount g \<le> length (community p)"
    then have "fst (add_empty_community g p) = Inr (length (community p))"
      by (simp add: add_empty_community_def Let_def)
    with assms show False by simp
  qed
  then have "add_empty_community g p = (Inl CapacityExceeded, p\<lparr>community := community p @ [{}]\<rparr>)"
    by (simp add: add_empty_community_def Let_def)
  with assms show "err = CapacityExceeded" and "p' = p\<lparr>community := community p @ [{}]\<rparr>"
    by simp_all
qed

lemma add_empty_community_safe:
  assumes "safe_state g p" and "add_empty_community g p = (Inr c, p')"
  shows "safe_state g p'" and "c < vcount g"
proof -
  note r = add_empty_community_Inr [OF assms(2)]
  show "c < vcount g" using r(1,2) by simp
  show "safe_state g p'"
    using assms(1) r(1)
    by (simp add: safe_state_def ids_below_vcount_def caches_ok_def nb_communities_def r(3-10))
qed

lemma create_cache_lengths:
  assumes "create g m = Inr p"
  shows "length (cached_weight_to_community p) = vcount g"
    and "length (cached_weight_from_community p) = vcount g"
  using create_caches_ok [OF assms] by (simp_all add: caches_ok_def cache_ok_def)

lemma csize_beyond: "\<not> c < length (csize_vec p) \<Longrightarrow> csize p c = 0"
  by (simp add: csize_def)

lemma ex_pair_add:
  "fst (add_empty_community ex_graph (init_admin_body ex_graph (fresh\<lparr>membership := [0, 0]\<rparr>))) = Inr 1"
proof -
  have n: "count_comms [0, 0] 2 = 1"
    by (simp add: count_comms_def upt_0_2)
  show ?thesis
    by (simp add: add_empty_community_def Let_def init_admin_fields ex_graph_vcount n)
qed

lemma ex_pair_create:
  "create ex_graph [0, 0] = Inr (init_admin_body ex_graph (fresh\<lparr>membership := [0, 0]\<rparr>))"
  by (simp add: create_def init_admin_def count_comms_def ex_graph_vcount upt_0_2)

lemma ex_below: "\<forall>u < vcount ex_graph. [0, 1::nat] ! u < vcount ex_graph"
  "\<forall>u < vcount ex_graph. [0, 0::nat] ! u < vcount ex_graph"
  by (simp_all add: ex_graph_vcount less_2_cases_iff)

section \<open>Evaluating the further examples\<close>

lemma bit_length_big:
  "bit_length 18014399031750578 = 55"
  "bit_length 9007199420969022 = 54"
  "bit_length 18014398936844310 = 55"
  by (simp_all add: bit_length.simps)

lemma double_of_int_big:
  "double_of_int 18014399031750578 = 18014399031750576"
  "double_of_int 9007199420969022 = 9007199420969022"
  "double_of_int 18014398936844310 = 18014398936844312"
  by (simp_all add: double_of_int_def Let_def bit_length_big)

lemma double_of_int_size: "double_of_int 94906267 = 94906267"
  by (simp add: double_of_int_exact)

lemma ex_big_create: "create ex_big [0, 1] = Inr ex_big_single"
  by (simp add: create_def ex_big_def ex_big_single_def init_eval)

lemma ex_big_move:
  "move_node ex_big 0 1 ex_big_single =
     Inr (ex_big_single\<lparr>membership := [1, 1], community := [{}, {0, 1}],
            csize_vec := [0, 189812534],
            total_possible_edges_in_all_comms := 18014398936844312,
            empty_communities := [0]\<rparr>)"
  unfolding ex_big_single_def
  by (simp add: move_eval ex_big_def insert_commute double_of_int_big double_of_int_size)

lemma ex_big_step:
  "and_then (create ex_big [0, 1]) (move_node ex_big 0 1) =
     Inr (ex_big_single\<lparr>membership := [1, 1], community := [{}, {0, 1}],
            csize_vec := [0, 189812534],
            total_possible_edges_in_all_comms := 18014398936844312,
            empty_communities := [0]\<rparr>)"
  unfolding ex_big_create and_then_def by (simp only: sum.case ex_big_move)

lemma ex_big_counter:
  "map_sum id (\<lambda>p. (total_possible_edges_in_all_comms p,
       (\<Sum>c<nb_communities p. int (possible_edges ex_big (csize p c)))))
     (and_then (create ex_big [0, 1]) (move_node ex_big 0 1)) =
   Inr (18014398936844312, 18014398936844311)"
  unfolding ex_big_step
  by (simp add: nb_communities_def csize_def ex_big_single_def possible_edges_formula_def
      ex_big_def)

lemma ex_sizes_singletons:
  "create_singletons ex_sizes =
     Inr \<lparr>membership = [0, 1, 2], community = [{0}, {1}, {2}], csize_vec = [1, 0, 1],
      total_weight_in_comm = [0, 0, 0], total_weight_from_comm = [0, 0, 0],
      total_weight_to_comm = [0, 0, 0], total_weight_in_all_comms = 0,
      total_possible_edges_in_all_comms = 0, empty_communities = [],
      current_node_cache_community_from = 4, current_node_cache_community_to = 4,
      current_node_cache_community_all = 4,
      cached_weight_from_community = [0, 0, 0], cached_weight_to_community = [0, 0, 0],
      cached_weight_all_community = [0, 0, 0],
      cached_neigh_comms_from = [], cached_neigh_comms_to = [], cached_neigh_comms_all = []\<rparr>"
  by (simp add: create_singletons_def ex_sizes_def init_eval)

lemma ex_sizes_move:
  "and_then (create_singletons ex_sizes) (move_node ex_sizes 0 1) = Inl InvalidErase"
  unfolding ex_sizes_singletons
  by (simp add: move_eval ex_sizes_def)

lemma ex_gap_create:
  "create ex_graph [0, 2] =
     Inr \<lparr>membership = [0, 2], community = [{0}, {}, {1}], csize_vec = [1, 0, 1],
      total_weight_in_comm = [0, 0, 0], total_weight_from_comm = [1, 0, 1],
      total_weight_to_comm = [1, 0, 1], total_weight_in_all_comms = 0,
      total_possible_edges_in_all_comms = 0, empty_communities = [],
      current_node_cache_community_from = 3, current_node_cache_community_to = 3,
      current_node_cache_community_all = 3,
      cached_weight_from_community = [0, 0], cached_weight_to_community = [0, 0],
      cached_weight_all_community = [0, 0],
      cached_neigh_comms_from = [], cached_neigh_comms_to = [], cached_neigh_comms_all = []\<rparr>"
  by (simp add: create_def ex_graph_def init_eval)

lemma ex_gap_move:
  "and_then (create ex_graph [0, 2]) (move_node ex_graph 0 1) = Inl InvalidErase"
  unfolding ex_gap_create
  by (simp add: move_eval ex_graph_def)

lemma ex_query:
  "weight_to_comm ex_graph 0 1 ex_single =
     Inr (1, ex_single\<lparr>cached_weight_to_community := [0, 1], cached_neigh_comms_to := [1],
                current_node_cache_community_to := 0\<rparr>)"
  by (simp add: weight_to_comm_def cache_neigh_communities_def cache_fill_def cache_edge_def
      cache_reset_def cache_weight_def incident_def add_at_def Let_def ex_single_def ex_graph_def)

lemma ex_query_move:
  "move_node ex_graph 1 0
     (ex_single\<lparr>cached_weight_to_community := [0, 1], cached_neigh_comms_to := [1],
                current_node_cache_community_to := 0\<rparr>) =
   Inr (ex_single\<lparr>cached_weight_to_community := [0, 1], cached_neigh_comms_to := [1],
                current_node_cache_community_to := 0, membership := [0, 0],
                community := [{0, 1}, {}], csize_vec := [2, 0],
                total_weight_in_comm := [1, 0], total_weight_from_comm := [2, 0],
                total_weight_to_comm := [2, 0], total_weight_in_all_comms := 1,
                total_possible_edges_in_all_comms := 1, empty_communities := [1]\<rparr>)"
  unfolding ex_single_def
  by (simp add: move_eval ex_graph_def insert_commute)

lemma ex_query_stale:
  "weight_to_comm ex_graph 0 1
     (ex_single\<lparr>cached_weight_to_community := [0, 1], cached_neigh_comms_to := [1],
                current_node_cache_community_to := 0, membership := [0, 0],
                community := [{0, 1}, {}], csize_vec := [2, 0],
                total_weight_in_comm := [1, 0], total_weight_from_comm := [2, 0],
                total_weight_to_comm := [2, 0], total_weight_in_all_comms := 1,
                total_possible_edges_in_all_comms := 1, empty_communities := [1]\<rparr>) =
   Inr (1, ex_single\<lparr>cached_weight_to_community := [0, 1], cached_neigh_comms_to := [1],
                current_node_cache_community_to := 0, membership := [0, 0],
                community := [{0, 1}, {}], csize_vec := [2, 0],
                total_weight_in_comm := [1, 0], total_weight_from_comm := [2, 0],
                total_weight_to_comm := [2, 0], total_weight_in_all_comms := 1,
                total_possible_edges_in_all_comms := 1, empty_communities := [1]\<rparr>)"
  by (simp add: weight_to_comm_def ex_single_def)

lemma ex_direct_after_move: "direct_weight ex_graph IGRAPH_OUT [0, 0] 0 1 = 0"
  by (simp add: direct_weight_def ex_graph_def)

lemma ex_stale:
  "and_then (create_singletons ex_graph)
     (\<lambda>p. and_then (weight_to_comm ex_graph 0 1 p)
     (\<lambda>r. and_then (move_node ex_graph 1 0 (snd r))
     (\<lambda>q. map_sum id
            (\<lambda>r'. (fst r', direct_weight ex_graph IGRAPH_OUT (membership (snd r')) 0 1))
            (weight_to_comm ex_graph 0 1 q)))) = Inr (1, 0)"
proof -
  have "membership
     (ex_single\<lparr>cached_weight_to_community := [0, 1], cached_neigh_comms_to := [1],
                current_node_cache_community_to := 0, membership := [0, 0],
                community := [{0, 1}, {}], csize_vec := [2, 0],
                total_weight_in_comm := [1, 0], total_weight_from_comm := [2, 0],
                total_weight_to_comm := [2, 0], total_weight_in_all_comms := 1,
                total_possible_edges_in_all_comms := 1, empty_communities := [1]\<rparr>) = [0, 0]"
    by simp
  then show ?thesis
    unfolding ex_singletons and_then_def
    by (simp only: sum.case ex_query snd_conv ex_query_move ex_query_stale map_sum.simps
        fst_conv ex_direct_after_move)
qed

lemma ex_loop_ok: "graph_ok ex_loop"
  by (simp add: graph_ok_def ex_loop_def)

lemma ex_loop_vcount: "vcount ex_loop = 2"
  by (simp add: ex_loop_def)

lemma ex_loop_singletons:
  "create_singletons ex_loop = Inr (init_admin_body ex_loop (fresh\<lparr>membership := [0, 1]\<rparr>))"
  unfolding create_singletons_def ex_loop_vcount upt_0_2
  by (rule init_admin_fits) (simp_all add: ex_loop_vcount less_2_cases_iff)

lemma ex_loop_direct:
  "direct_weight ex_loop IGRAPH_OUT [0, 1] 0 0 = 2"
  "direct_weight ex_loop IGRAPH_OUT [0, 1] 0 1 = 3"
  "direct_weight ex_loop IGRAPH_IN [0, 1] 0 0 = 2"
  by (simp_all add: direct_weight_def ex_loop_def)

lemma ex_four_singletons: "create_singletons ex_four = Inr ex_four_single"
  by (simp add: create_singletons_def ex_four_single_def ex_four_def init_eval upt_0_4
      replicate_4)

lemma ex_four_move_0_3:
  "move_node ex_four 0 3 ex_four_single =
     Inr (ex_four_single\<lparr>membership := [3, 1, 2, 3], community := [{}, {1}, {2}, {0, 3}],
            csize_vec := [0, 0, 1, 2], total_possible_edges_in_all_comms := 1,
            empty_communities := [0]\<rparr>)"
  unfolding ex_four_single_def
  by (simp add: move_eval ex_four_def insert_commute double_of_int_exact)

lemma ex_four_move_2_3:
  "move_node ex_four 2 3
     (ex_four_single\<lparr>membership := [3, 1, 2, 3], community := [{}, {1}, {2}, {0, 3}],
            csize_vec := [0, 0, 1, 2], total_possible_edges_in_all_comms := 1,
            empty_communities := [0]\<rparr>) = Inr ex_four_moved"
  unfolding ex_four_single_def ex_four_moved_def
  by (simp add: move_eval ex_four_def insert_commute double_of_int_exact)

lemma ex_four_moves:
  "and_then (and_then (create_singletons ex_four) (move_node ex_four 0 3))
     (move_node ex_four 2 3) = Inr ex_four_moved"
  unfolding ex_four_singletons and_then_def
  by (simp only: sum.case ex_four_move_0_3 ex_four_move_2_3)

lemma ex_four_new_comm_id: "new_comm_id ex_four_moved = [1, 2, 3, 0]"
  by (simp add: ex_four_moved_def ex_four_single_def new_comm_id_def sorted_csizes_def
      nb_communities_def sort_with_def pairCompareReverseSecond_def upt_0_4 replicate_4
      csize_def)

lemma ex_four_renumber_step:
  "renumber_communities ex_four ex_four_moved =
     Inr (init_admin_body ex_four (clean_mem (ex_four_moved\<lparr>membership := [0, 2, 0, 0]\<rparr>)))"
  unfolding renumber_communities_def ex_four_new_comm_id
  by (simp add: ex_four_moved_def ex_four_single_def ex_four_def upt_0_4 init_admin_def
      count_comms_def clean_mem_def)

lemma ex_four_reinit:
  "init_admin_body ex_four (clean_mem (ex_four_moved\<lparr>membership := [0, 2, 0, 0]\<rparr>)) =
     ex_four_moved\<lparr>membership := [0, 2, 0, 0], community := [{0, 2, 3}, {}, {1}],
                    csize_vec := [3, 0, 0], total_weight_in_comm := [0, 0, 0],
                    total_weight_from_comm := [0, 0, 0], total_weight_to_comm := [0, 0, 0]\<rparr>"
  by (simp add: ex_four_moved_def ex_four_single_def ex_four_def init_eval upt_0_4 insert_commute)

lemma ex_graph_total_size: "total_size ex_graph = 2"
  by (simp add: total_size_def ex_graph_def)

section \<open>Construction and reconstruction succeed unless an id is the largest word\<close>

lemma create_fits:
  assumes "length m = vcount g" and "\<forall>v<vcount g. m ! v < 2 ^ 64 - 1"
  shows "create g m = Inr (init_admin_body g (fresh\<lparr>membership := m\<rparr>))"
proof -
  have "init_admin g (fresh\<lparr>membership := m\<rparr>) = Inr (init_admin_body g (fresh\<lparr>membership := m\<rparr>))"
    using assms by (intro init_admin_fits) simp_all
  then show ?thesis using assms(1) by (simp add: create_def)
qed

lemma init_admin_overflow:
  assumes "v < vcount g" and "\<not> membership p ! v < 2 ^ 64 - 1"
  shows "init_admin g p = Inl OutOfBounds"
proof -
  have "count_comms (membership p) (vcount g) \<le> 2 ^ 64 - 1"
    using count_comms_word [of "membership p" "vcount g"] by simp
  then have "\<not> membership p ! v < count_comms (membership p) (vcount g)"
    using assms(2) by simp
  then have "\<not> list_all (\<lambda>v. membership p ! v < count_comms (membership p) (vcount g))
      [0..<vcount g]"
    using assms(1) by (auto simp: list_all_iff)
  then show ?thesis by (simp add: init_admin_def)
qed

lemma create_overflow:
  assumes "length m = vcount g" and "\<not> (\<forall>v<vcount g. m ! v < 2 ^ 64 - 1)"
  shows "create g m = Inl OutOfBounds"
proof -
  from assms(2) obtain v where v: "v < vcount g" "\<not> m ! v < 2 ^ 64 - 1" by blast
  have "init_admin g (fresh\<lparr>membership := m\<rparr>) = Inl OutOfBounds"
    using v by (intro init_admin_overflow [of v]) simp_all
  then show ?thesis using assms(1) by (simp add: create_def)
qed

lemma renumber_communities_membership_fits:
  assumes "length (membership p) = vcount g" and "vcount g \<le> length new_membership"
    and "\<forall>v<vcount g. new_membership ! v < 2 ^ 64 - 1"
  shows "\<exists>p'. renumber_communities_membership g new_membership p = Inr p'"
proof -
  let ?q = "clean_mem (p\<lparr>membership := take (vcount g) new_membership\<rparr>)"
  have "init_admin g ?q = Inr (init_admin_body g ?q)"
    using assms(2,3) by (intro init_admin_fits) (simp_all add: clean_mem_def)
  then show ?thesis
    unfolding renumber_communities_membership_result [OF assms(1,2)] by blast
qed

section \<open>The claims\<close>

text \<open>
  C1. The invariant "a community has size 0 exactly when it is in the pool" does not
  survive renumbering. On the two-vertex example, start from singletons, move vertex 0
  into community 1 (community 0 enters the pool) and renumber: the result has the single
  community 0 of size 2, and the pool still lists 0, because \<^verbatim>\<open>init_admin\<close> resets every
  vector but \<^verbatim>\<open>_empty_communities\<close>.
\<close>

theorem C1_pool_survives_renumbering:
  "map_sum id (\<lambda>p. (nb_communities p, csize p 0, empty_communities p))
     (and_then (and_then (create_singletons ex_graph) (move_node ex_graph 0 1))
        (renumber_communities ex_graph)) = Inr (1, 2, [0])"
  unfolding ex_singletons and_then_def
  by (simp only: sum.case ex_move_0_1 ex_merged_renumber_step ex_merged_reinit map_sum.simps)
     (simp add: nb_communities_def csize_def)

text \<open>
  C2. \<^verbatim>\<open>add_empty_community\<close> appends the new member set before it tests the capacity.
  On the two-vertex example with two communities the call throws, and the object it
  leaves behind has three community slots instead of two.
\<close>

theorem C2_add_empty_community_mutates_before_throw:
  "map_sum id
     (\<lambda>p. (fst (add_empty_community ex_graph p), nb_communities p,
           nb_communities (snd (add_empty_community ex_graph p))))
     (create_singletons ex_graph) = Inr (Inl CapacityExceeded, 2, 3)"
  unfolding ex_singletons
  by (simp add: add_empty_community_def nb_communities_def ex_graph_def ex_single_def Let_def)

text \<open>
  C3 (as stated, false). The argument of \<^verbatim>\<open>renumber_communities(new_membership)\<close> is not
  a table from old to new community ids. On the two-vertex example with membership
  \<open>[1, 0]\<close> and argument \<open>[0, 1]\<close>, vertex 0 was in community 1 and the argument maps 1
  to 1, but the new community of vertex 0 is 0.
\<close>

theorem C3_counterexample:
  "map_sum id (\<lambda>p. membership p ! 0) (create ex_graph [1, 0]) = Inr 1 \<and>
   map_sum id (\<lambda>p. membership p ! 0)
     (and_then (create ex_graph [1, 0]) (renumber_communities_membership ex_graph [0, 1])) = Inr 0 \<and>
   [0, 1::nat] ! 1 \<noteq> 0"
proof -
  let ?p = "init_admin_body ex_graph (fresh\<lparr>membership := [1, 0]\<rparr>)"
  have c: "create ex_graph [1, 0] = Inr ?p"
    by (rule create_fits) (simp_all add: ex_graph_vcount less_2_cases_iff)
  have m: "membership ?p = [1, 0]" by (simp add: init_admin_fields)
  have l: "length (membership ?p) = vcount ex_graph" "vcount ex_graph \<le> length [0, 1::nat]"
    by (simp_all add: init_admin_fields ex_graph_vcount)
  have "\<forall>v<vcount ex_graph. [0, 1::nat] ! v < 2 ^ 64 - 1"
    by (simp add: ex_graph_vcount less_2_cases_iff)
  from renumber_communities_membership_fits [OF l this]
  obtain p' where p': "renumber_communities_membership ex_graph [0, 1] ?p = Inr p'" by blast
  have "membership p' = [0, 1]"
    using renumber_communities_membership_Inr(1) [OF l p'] by (simp add: ex_graph_vcount)
  then show ?thesis using c m p' by (simp add: and_then_def)
qed

text \<open>
  C3 (amended). The argument is a membership vector indexed by vertex: after the call
  every vertex \<open>v\<close> is in community \<open>new_membership ! v\<close>, whatever its community was
  before, and the result is the full re-initialisation from that membership, which
  satisfies the data model. The call returns when every new id is below the largest
  \<^verbatim>\<open>size_t\<close> value, whose successor wraps in \<^verbatim>\<open>init_admin\<close>.
\<close>

theorem C3_renumber_by_membership:
  assumes "length (membership p) = vcount g" and "vcount g \<le> length new_membership"
  shows "((\<forall>v < vcount g. new_membership ! v < 2 ^ 64 - 1) \<longrightarrow>
            (\<exists>p'. renumber_communities_membership g new_membership p = Inr p')) \<and>
         (\<forall>p'. renumber_communities_membership g new_membership p = Inr p' \<longrightarrow>
            (\<forall>v < vcount g. membership p' ! v = new_membership ! v) \<and>
            init_admin g (clean_mem (p\<lparr>membership := membership p'\<rparr>)) = Inr p' \<and>
            partition_ok g p')"
proof (intro conjI)
  show "(\<forall>v < vcount g. new_membership ! v < 2 ^ 64 - 1) \<longrightarrow>
      (\<exists>p'. renumber_communities_membership g new_membership p = Inr p')"
    using renumber_communities_membership_fits [OF assms] by blast
  show "\<forall>p'. renumber_communities_membership g new_membership p = Inr p' \<longrightarrow>
      (\<forall>v < vcount g. membership p' ! v = new_membership ! v) \<and>
      init_admin g (clean_mem (p\<lparr>membership := membership p'\<rparr>)) = Inr p' \<and>
      partition_ok g p'"
  proof (intro allI impI)
    fix p' assume r: "renumber_communities_membership g new_membership p = Inr p'"
    note i = renumber_communities_membership_Inr [OF assms r]
    have "\<forall>v < vcount g. membership p' ! v = new_membership ! v"
      unfolding i(1) by simp
    with i(2,3) show "(\<forall>v < vcount g. membership p' ! v = new_membership ! v) \<and>
      init_admin g (clean_mem (p\<lparr>membership := membership p'\<rparr>)) = Inr p' \<and>
      partition_ok g p'"
      by blast
  qed
qed

theorem C3_renumber_by_membership_witness:
  "length (membership ex_single) = vcount ex_graph \<and>
   vcount ex_graph \<le> length [1, 1::nat] \<and>
   (\<exists>p'. renumber_communities_membership ex_graph [1, 1] ex_single = Inr p' \<and>
      membership p' ! 0 = 1 \<and> membership p' ! 1 = 1 \<and>
      init_admin ex_graph (clean_mem (ex_single\<lparr>membership := membership p'\<rparr>)) = Inr p' \<and>
      partition_ok ex_graph p')"
proof -
  have h: "length (membership ex_single) = vcount ex_graph"
    "vcount ex_graph \<le> length [1, 1::nat]"
    by (simp_all add: ex_single_def ex_graph_vcount)
  have f: "\<forall>v < vcount ex_graph. [1, 1::nat] ! v < 2 ^ 64 - 1"
    by (simp add: ex_graph_vcount less_2_cases_iff)
  note t = C3_renumber_by_membership [OF h]
  from t f obtain p' where
    p': "renumber_communities_membership ex_graph [1, 1] ex_single = Inr p'" by blast
  with t have q: "\<forall>v < vcount ex_graph. membership p' ! v = [1, 1] ! v"
    "init_admin ex_graph (clean_mem (ex_single\<lparr>membership := membership p'\<rparr>)) = Inr p'"
    "partition_ok ex_graph p'"
    by blast+
  from q(1) have "membership p' ! 0 = 1" "membership p' ! 1 = 1"
    by (simp_all add: ex_graph_vcount)
  with h p' q(2,3) show ?thesis by blast
qed

text \<open>
  C4 (as stated, false). The reconstruction paths do not check the length of the vector
  they are given: on the two-vertex example, \<^verbatim>\<open>renumber_communities\<close> with a vector of
  three entries succeeds and uses the first two.
\<close>

theorem C4_counterexample:
  "length [0, 1, 7::nat] \<noteq> vcount ex_graph \<and>
   map_sum id membership
     (and_then (create_singletons ex_graph)
        (renumber_communities_membership ex_graph [0, 1, 7])) = Inr [0, 1]"
proof -
  have l: "length (membership ex_single) = vcount ex_graph"
    "vcount ex_graph \<le> length [0, 1, 7::nat]"
    by (simp_all add: ex_single_def ex_graph_vcount)
  have "\<forall>v<vcount ex_graph. [0, 1, 7::nat] ! v < 2 ^ 64 - 1"
    by (simp add: ex_graph_vcount less_2_cases_iff)
  from renumber_communities_membership_fits [OF l this]
  obtain p' where p': "renumber_communities_membership ex_graph [0, 1, 7] ex_single = Inr p'"
    by blast
  have "membership p' = [0, 1]"
    using renumber_communities_membership_Inr(1) [OF l p'] by (simp add: ex_graph_vcount)
  then show ?thesis
    unfolding ex_singletons using p' by (simp add: and_then_def ex_graph_vcount)
qed

text \<open>
  C4 (amended). The constructor raises \<open>InvalidArgument\<close> exactly when the length of the
  membership vector differs from the vertex count. With the right length it succeeds
  when every id is below the largest \<^verbatim>\<open>size_t\<close> value \<open>2\<^sup>6\<^sup>4 - 1\<close>; an id equal to it makes
  the slot count of \<^verbatim>\<open>init_admin\<close> wrap, and the construction indexes out of bounds. The
  reconstruction paths never raise \<open>InvalidArgument\<close>. Renumbering with a supplied vector
  that has at least as many entries as there are vertices ignores the entries beyond the
  vertex count, and succeeds under the same condition on the ids.
\<close>

theorem C4_length_is_checked_by_the_constructor_only:
  "(create g m = Inl InvalidArgument \<longleftrightarrow> length m \<noteq> vcount g) \<and>
   (length m = vcount g \<and> (\<forall>v < vcount g. m ! v < 2 ^ 64 - 1) \<longrightarrow>
      (\<exists>p'. create g m = Inr p' \<and> membership p' = m)) \<and>
   (length m = vcount g \<and> \<not> (\<forall>v < vcount g. m ! v < 2 ^ 64 - 1) \<longrightarrow>
      create g m = Inl OutOfBounds) \<and>
   renumber_communities_membership g m p \<noteq> Inl InvalidArgument \<and>
   from_coarser_partition g m coarser_node p \<noteq> Inl InvalidArgument \<and>
   (length (membership p) = vcount g \<and> vcount g \<le> length m \<longrightarrow>
      renumber_communities_membership g m p =
        renumber_communities_membership g (take (vcount g) m) p \<and>
      ((\<forall>v < vcount g. m ! v < 2 ^ 64 - 1) \<longrightarrow>
         (\<exists>p'. renumber_communities_membership g m p = Inr p' \<and>
            membership p' = take (vcount g) m)))"
proof (intro conjI impI)
  show "create g m = Inl InvalidArgument \<longleftrightarrow> length m \<noteq> vcount g"
    by (simp add: create_def init_admin_def)
next
  assume a: "length m = vcount g \<and> (\<forall>v < vcount g. m ! v < 2 ^ 64 - 1)"
  then have "create g m = Inr (init_admin_body g (fresh\<lparr>membership := m\<rparr>))"
    using create_fits by blast
  then show "\<exists>p'. create g m = Inr p' \<and> membership p' = m"
    by (simp add: init_admin_fields)
next
  assume "length m = vcount g \<and> \<not> (\<forall>v < vcount g. m ! v < 2 ^ 64 - 1)"
  then show "create g m = Inl OutOfBounds" using create_overflow by blast
next
  show "renumber_communities_membership g m p \<noteq> Inl InvalidArgument"
    by (simp add: renumber_communities_membership_def init_admin_def Let_def)
next
  show "from_coarser_partition g m coarser_node p \<noteq> Inl InvalidArgument"
    by (simp add: from_coarser_partition_def init_admin_def Let_def)
next
  assume a: "length (membership p) = vcount g \<and> vcount g \<le> length m"
  then have l: "length (membership p) = vcount g" "vcount g \<le> length m"
    "vcount g \<le> length (take (vcount g) m)"
    by simp_all
  show "renumber_communities_membership g m p =
      renumber_communities_membership g (take (vcount g) m) p"
    unfolding renumber_communities_membership_result [OF l(1,2)]
      renumber_communities_membership_result [OF l(1,3)]
    by simp
  assume f: "\<forall>v < vcount g. m ! v < 2 ^ 64 - 1"
  from renumber_communities_membership_fits [OF l(1,2) f]
  obtain p' where p': "renumber_communities_membership g m p = Inr p'" by blast
  from renumber_communities_membership_Inr(1) [OF l(1,2) p'] p'
  show "\<exists>p'. renumber_communities_membership g m p = Inr p' \<and>
      membership p' = take (vcount g) m"
    by blast
qed

theorem C4_length_is_checked_by_the_constructor_only_witness:
  "length [0, 1::nat] = vcount ex_graph \<and>
   (\<exists>p'. create ex_graph [0, 1] = Inr p' \<and> membership p' = [0, 1]) \<and>
   length [0::nat] \<noteq> vcount ex_graph \<and>
   create ex_graph [0] = Inl InvalidArgument \<and>
   length [2 ^ 64 - 1, 0::nat] = vcount ex_graph \<and>
   create ex_graph [2 ^ 64 - 1, 0] = Inl OutOfBounds \<and>
   length (membership ex_single) = vcount ex_graph \<and>
   vcount ex_graph \<le> length [0, 1, 7::nat] \<and>
   renumber_communities_membership ex_graph [0, 1, 7] ex_single =
     renumber_communities_membership ex_graph [0, 1] ex_single \<and>
   (\<exists>p'. renumber_communities_membership ex_graph [0, 1, 7] ex_single = Inr p' \<and>
      membership p' = [0, 1])"
proof -
  note t1 = C4_length_is_checked_by_the_constructor_only [of ex_graph "[0, 1]"]
  note t2 = C4_length_is_checked_by_the_constructor_only [of ex_graph "[0]"]
  note t3 = C4_length_is_checked_by_the_constructor_only [of ex_graph "[2 ^ 64 - 1, 0]"]
  note t4 = C4_length_is_checked_by_the_constructor_only [of ex_graph "[0, 1, 7]" ex_single]
  have f1: "\<forall>v < vcount ex_graph. [0, 1::nat] ! v < 2 ^ 64 - 1"
    by (simp add: ex_graph_vcount less_2_cases_iff)
  have f3: "\<not> (\<forall>v < vcount ex_graph. [2 ^ 64 - 1, 0::nat] ! v < 2 ^ 64 - 1)"
    by (simp add: ex_graph_vcount less_2_cases_iff)
  have f4: "\<forall>v < vcount ex_graph. [0, 1, 7::nat] ! v < 2 ^ 64 - 1"
    by (simp add: ex_graph_vcount less_2_cases_iff)
  have l1: "length [0, 1::nat] = vcount ex_graph" by (simp add: ex_graph_vcount)
  have l2: "length [0::nat] \<noteq> vcount ex_graph" by (simp add: ex_graph_vcount)
  have l3: "length [2 ^ 64 - 1, 0::nat] = vcount ex_graph" by (simp add: ex_graph_vcount)
  have l4: "length (membership ex_single) = vcount ex_graph"
    "vcount ex_graph \<le> length [0, 1, 7::nat]"
    by (simp_all add: ex_single_def ex_graph_vcount)
  have tk: "take (vcount ex_graph) [0, 1, 7::nat] = [0, 1]" by (simp add: ex_graph_vcount)
  have 1: "\<exists>p'. create ex_graph [0, 1] = Inr p' \<and> membership p' = [0, 1]"
    using t1 l1 f1 by blast
  have 2: "create ex_graph [0] = Inl InvalidArgument" using t2 l2 by blast
  have 3: "create ex_graph [2 ^ 64 - 1, 0] = Inl OutOfBounds" using t3 l3 f3 by blast
  have 4: "renumber_communities_membership ex_graph [0, 1, 7] ex_single =
      renumber_communities_membership ex_graph [0, 1] ex_single"
    using t4 l4 unfolding tk by blast
  have 5: "\<exists>p'. renumber_communities_membership ex_graph [0, 1, 7] ex_single = Inr p' \<and>
      membership p' = [0, 1]"
    using t4 l4 f4 unfolding tk by blast
  from l1 1 l2 2 l3 3 l4 4 5 show ?thesis by blast
qed

text \<open>
  C5 (as stated, false). The delta of \<^verbatim>\<open>move_node\<close> is computed and added in \<^verbatim>\<open>double\<close>.
  On two vertices of size 94906267 in an undirected graph, construction gives the total
  9007199420969022; after \<^verbatim>\<open>move_node(0, 1)\<close> the running total is 18014398936844312,
  while the sum of the possible edges of the two community sizes is 18014398936844311.
  And a call with valid arguments need not be defined: on the two-vertex example built
  from the membership \<open>[0, 2]\<close>, community 1 is allocated and empty but not in the pool,
  and \<^verbatim>\<open>move_node(0, 1)\<close> erases at an iterator that is not in the pool.
\<close>

theorem C5_counterexample:
  "map_sum id (\<lambda>p. (total_possible_edges_in_all_comms p,
       (\<Sum>c<nb_communities p. int (possible_edges ex_big (csize p c)))))
     (and_then (create ex_big [0, 1]) (move_node ex_big 0 1)) =
   Inr (18014398936844312, 18014398936844311) \<and>
   and_then (create ex_graph [0, 2]) (move_node ex_graph 0 1) = Inl InvalidErase"
  using ex_big_counter ex_gap_move by (rule conjI)

text \<open>
  C5 (amended). Start from a partition built by the constructor and run any sequence of
  \<^verbatim>\<open>move_node\<close> calls that are defined. If the graph counts possible edges by the
  formula of the specification, for directed and for undirected graphs alike, and twice
  the square of the total node size is below \<open>2\<^sup>5\<^sup>3\<close> (so that every intermediate value
  is a \<^verbatim>\<open>double\<close>), the running total of possible edges equals the sum of
  \<open>possible_edges (csize c)\<close> over the allocated community slots \<open>c\<close>: the closed-form
  delta of \<^verbatim>\<open>move_node\<close> agrees with recomputing the sum from scratch.
\<close>

theorem C5_total_possible_edges:
  assumes "create g m = Inr p0" and "move_nodes g moves p0 = Inr p"
    and "possible_edges g = possible_edges_formula (is_directed g) self_loops"
    and "2 * (total_size g * total_size g) < 2 ^ 53"
  shows "total_possible_edges_in_all_comms p =
           (\<Sum>c<nb_communities p. int (possible_edges g (csize p c)))"
proof -
  note m = create_Inr(1) [OF assms(1)] and p0 = create_Inr(2) [OF assms(1)]
    and rng = create_Inr(3) [OF assms(1)]
  have ok: "partition_ok g p0"
    unfolding p0 using m rng by (intro init_admin_ok) simp_all
  have pe: "total_possible_edges_in_all_comms p0 =
           (\<Sum>c<nb_communities p0. int (possible_edges g (csize p0 c)))"
    unfolding p0 by (rule init_admin_possible_edges)
  from move_nodes_invariant [OF assms(2) ok assms(3) assms(4) pe] show ?thesis by simp
qed

theorem C5_total_possible_edges_witness:
  "create ex_graph [0, 1] = Inr ex_single \<and>
   move_nodes ex_graph [(0, 1)] ex_single = Inr ex_merged \<and>
   possible_edges ex_graph = possible_edges_formula (is_directed ex_graph) False \<and>
   2 * (total_size ex_graph * total_size ex_graph) < 2 ^ 53 \<and>
   total_possible_edges_in_all_comms ex_merged =
     (\<Sum>c<nb_communities ex_merged. int (possible_edges ex_graph (csize ex_merged c))) \<and>
   total_possible_edges_in_all_comms ex_merged = 1"
proof -
  have 1: "create ex_graph [0, 1] = Inr ex_single"
    by (rule ex_create_singletons)
  have 2: "move_nodes ex_graph [(0, 1)] ex_single = Inr ex_merged"
    using ex_move_0_1 by (simp add: and_then_def)
  have 3: "possible_edges ex_graph = possible_edges_formula (is_directed ex_graph) False"
    by (simp add: ex_graph_def)
  have 4: "total_possible_edges_in_all_comms ex_merged = 1"
    by (simp add: ex_merged_def)
  have 5: "2 * (total_size ex_graph * total_size ex_graph) < 2 ^ 53"
    by (simp add: ex_graph_total_size)
  from C5_total_possible_edges [OF 1 2 3 5] 1 2 3 4 5 show ?thesis by simp
qed

text \<open>
  C6. A move to a valid community need not be defined, so there is nothing to move back
  from. On three isolated vertices of sizes 1, 0 and 1, the singleton partition has three
  allocated communities and an empty pool, and community 1 has size 0. \<^verbatim>\<open>move_node(0, 1)\<close>
  takes community 1 for an empty one, searches the pool for it, and erases at the
  iterator \<^verbatim>\<open>rend()\<close> that the unsuccessful search returns. The same happens on the
  two-vertex example built from the membership \<open>[0, 2]\<close>, where community 1 has no member.
\<close>

theorem C6_move_to_a_community_missing_from_the_pool:
  "map_sum id (\<lambda>p. (membership p, nb_communities p, csize p 1, empty_communities p))
     (create_singletons ex_sizes) = Inr ([0, 1, 2], 3, 0, []) \<and>
   and_then (create_singletons ex_sizes) (move_node ex_sizes 0 1) = Inl InvalidErase \<and>
   map_sum id (\<lambda>p. (membership p, nb_communities p, csize p 1, empty_communities p))
     (create ex_graph [0, 2]) = Inr ([0, 2], 3, 0, []) \<and>
   and_then (create ex_graph [0, 2]) (move_node ex_graph 0 1) = Inl InvalidErase"
proof -
  have 1: "map_sum id (\<lambda>p. (membership p, nb_communities p, csize p 1, empty_communities p))
     (create_singletons ex_sizes) = Inr ([0, 1, 2], 3, 0, [])"
    unfolding ex_sizes_singletons by (simp add: nb_communities_def csize_def)
  have 2: "map_sum id (\<lambda>p. (membership p, nb_communities p, csize p 1, empty_communities p))
     (create ex_graph [0, 2]) = Inr ([0, 2], 3, 0, [])"
    unfolding ex_gap_create by (simp add: nb_communities_def csize_def)
  from 1 ex_sizes_move 2 ex_gap_move show ?thesis by blast
qed

text \<open>
  C7. In a state that satisfies the data model, moving a vertex into the community it is
  already in is defined and returns the very same state: no aggregate, not the pool and
  not the caches change, and no edge is counted twice (in exact arithmetic).
\<close>

theorem C7_noop_move:
  assumes "partition_ok g p" and "v < vcount g"
  shows "move_node g v (membership p ! v) p = Inr p"
proof -
  from assms have oc: "membership p ! v < length (community p)" and vm: "v < length (membership p)"
    by (simp_all add: partition_ok_def)
  have "move_node g v (membership p ! v) p = Inr (node_moved g v (membership p ! v) p)"
    using vm partition_ok_allocated [OF assms(1) oc] by (intro move_node_closed) simp_all
  then show ?thesis by (simp add: node_moved_noop [OF assms])
qed

theorem C7_noop_move_witness:
  "partition_ok ex_graph ex_merged \<and> (0::nat) < vcount ex_graph \<and>
   membership ex_merged ! 0 = 1 \<and>
   move_node ex_graph 0 1 ex_merged = Inr ex_merged"
proof -
  have v: "(0::nat) < vcount ex_graph" by (simp add: ex_graph_vcount)
  have m: "membership ex_merged ! 0 = 1" by (simp add: ex_merged_def)
  from C7_noop_move [OF ex_merged_ok v] m ex_merged_ok v show ?thesis by simp
qed

text \<open>
  C8. Renumbering orders the communities by size and takes a community of size 0 for an
  empty one. On four isolated vertices of sizes 1, 0, 1 and 1, start from singletons and
  move vertices 0 and 2 into community 3: communities 0 and 2 are empty, community 1
  holds vertex 1 and has size 0, community 3 has size 3. After \<^verbatim>\<open>renumber_communities()\<close>
  the two communities that have members carry the ids 0 and 2, and slot 1 is empty.
\<close>

theorem C8_renumbering_keeps_an_empty_slot:
  "map_sum id (\<lambda>p. (community p, csize_vec p))
     (and_then (and_then (create_singletons ex_four) (move_node ex_four 0 3))
        (move_node ex_four 2 3)) =
     Inr ([{}, {1}, {}, {0, 2, 3}], [0, 0, 0, 3]) \<and>
   map_sum id (\<lambda>p. (membership p, community p, csize_vec p))
     (and_then
        (and_then (and_then (create_singletons ex_four) (move_node ex_four 0 3))
           (move_node ex_four 2 3))
        (renumber_communities ex_four)) =
     Inr ([0, 2, 0, 0], [{0, 2, 3}, {}, {1}], [3, 0, 0])"
  unfolding ex_four_moves
  by (simp add: and_then_def ex_four_renumber_step ex_four_reinit)
     (simp add: ex_four_moved_def ex_four_single_def)

text \<open>
  C9 (as stated, false). A warm cache is not refreshed when the membership changes. On
  the two-vertex example, \<^verbatim>\<open>weight_to_comm(0, 1)\<close> on the singleton partition returns 1
  and fills the cache; after \<^verbatim>\<open>move_node(1, 0)\<close> no neighbour of vertex 0 is in community
  1, but the repeated query \<^verbatim>\<open>weight_to_comm(0, 1)\<close> still returns 1, where the sum over
  the incident edges is 0.
\<close>

theorem C9_counterexample:
  "and_then (create_singletons ex_graph)
     (\<lambda>p. and_then (weight_to_comm ex_graph 0 1 p)
     (\<lambda>r. and_then (move_node ex_graph 1 0 (snd r))
     (\<lambda>q. map_sum id
            (\<lambda>r'. (fst r', direct_weight ex_graph IGRAPH_OUT (membership (snd r')) 0 1))
            (weight_to_comm ex_graph 0 1 q)))) = Inr (1, 0)"
  by (rule ex_stale)

text \<open>
  C9 (amended). Let every community id in use be below the vertex count and the cache
  bookkeeping be intact (as after construction). If the outgoing cache is cold for \<open>v\<close>,
  \<^verbatim>\<open>weight_to_comm(v, c)\<close> returns, for every \<open>c\<close> below the vertex count, the sum of the
  weights of the outgoing incident edges of \<open>v\<close> whose other endpoint is in community \<open>c\<close>,
  a self-loop of an undirected graph with half its weight. Every first query leaves the
  same state behind, with the marker at \<open>v\<close>; it keeps the membership, the bookkeeping, and
  the marker and the weights of the incoming cache. The cache is warm in every state whose
  marker is \<open>v\<close> and whose cached outgoing weights are the ones that the first query
  stored: there the query returns the sum that was computed for the membership at the
  time of the first query, and changes nothing. \<^verbatim>\<open>weight_from_comm\<close> does the same with
  the incoming edges and its own cache.
\<close>

theorem C9_cache:
  assumes "graph_ok g" and "ids_below_vcount g p" and "caches_ok g p"
  shows "(current_node_cache_community_to p \<noteq> v \<longrightarrow>
          (\<exists>p1. caches_ok g p1 \<and> membership p1 = membership p \<and>
             current_node_cache_community_to p1 = v \<and>
             current_node_cache_community_from p1 = current_node_cache_community_from p \<and>
             cached_weight_from_community p1 = cached_weight_from_community p \<and>
             (\<forall>c < vcount g.
                weight_to_comm g v c p =
                  Inr (direct_weight g IGRAPH_OUT (membership p) v c, p1) \<and>
                (\<forall>q. current_node_cache_community_to q = v \<and>
                     cached_weight_to_community q = cached_weight_to_community p1 \<longrightarrow>
                     weight_to_comm g v c q =
                       Inr (direct_weight g IGRAPH_OUT (membership p) v c, q))))) \<and>
         (current_node_cache_community_from p \<noteq> v \<longrightarrow>
          (\<exists>p1. caches_ok g p1 \<and> membership p1 = membership p \<and>
             current_node_cache_community_from p1 = v \<and>
             current_node_cache_community_to p1 = current_node_cache_community_to p \<and>
             cached_weight_to_community p1 = cached_weight_to_community p \<and>
             (\<forall>c < vcount g.
                weight_from_comm g v c p =
                  Inr (direct_weight g IGRAPH_IN (membership p) v c, p1) \<and>
                (\<forall>q. current_node_cache_community_from q = v \<and>
                     cached_weight_from_community q = cached_weight_from_community p1 \<longrightarrow>
                     weight_from_comm g v c q =
                       Inr (direct_weight g IGRAPH_IN (membership p) v c, q)))))"
proof (intro conjI impI)
  assume cold: "current_node_cache_community_to p \<noteq> v"
  from assms(3) have c: "cache_ok (vcount g) (cached_weight_to_community p) (cached_neigh_comms_to p)"
    by (simp add: caches_ok_def)
  from weight_to_comm_cold_warm [OF assms(1,2) c cold]
  obtain cw' ns' where r: "cache_ok (vcount g) cw' ns'"
    "\<forall>c < vcount g.
              weight_to_comm g v c p =
                Inr (direct_weight g IGRAPH_OUT (membership p) v c,
                     p\<lparr>cached_weight_to_community := cw', cached_neigh_comms_to := ns',
                       current_node_cache_community_to := v\<rparr>) \<and>
              weight_to_comm g v c
                  (p\<lparr>cached_weight_to_community := cw', cached_neigh_comms_to := ns',
                     current_node_cache_community_to := v\<rparr>) =
                Inr (direct_weight g IGRAPH_OUT (membership p) v c,
                     p\<lparr>cached_weight_to_community := cw', cached_neigh_comms_to := ns',
                       current_node_cache_community_to := v\<rparr>)"
    by blast
  define p1 where "p1 = p\<lparr>cached_weight_to_community := cw', cached_neigh_comms_to := ns',
                       current_node_cache_community_to := v\<rparr>"
  have f: "caches_ok g p1" "membership p1 = membership p"
    "current_node_cache_community_to p1 = v"
    "current_node_cache_community_from p1 = current_node_cache_community_from p"
    "cached_weight_from_community p1 = cached_weight_from_community p"
    "cached_weight_to_community p1 = cw'"
    using assms(3) r(1) by (simp_all add: caches_ok_def p1_def)
  have len: "length cw' = vcount g" using r(1) by (simp add: cache_ok_def)
  have q: "weight_to_comm g v c p = Inr (direct_weight g IGRAPH_OUT (membership p) v c, p1) \<and>
      (\<forall>q. current_node_cache_community_to q = v \<and>
           cached_weight_to_community q = cached_weight_to_community p1 \<longrightarrow>
           weight_to_comm g v c q = Inr (direct_weight g IGRAPH_OUT (membership p) v c, q))"
    if c: "c < vcount g" for c
  proof -
    from r(2) c have 1: "weight_to_comm g v c p =
        Inr (direct_weight g IGRAPH_OUT (membership p) v c, p1)"
      and 2: "weight_to_comm g v c p1 =
        Inr (direct_weight g IGRAPH_OUT (membership p) v c, p1)"
      unfolding p1_def by blast+
    have "weight_to_comm g v c p1 = Inr (cw' ! c, p1)"
      using c len f(3,6) by (simp add: weight_to_comm_warm)
    with 2 have d: "cw' ! c = direct_weight g IGRAPH_OUT (membership p) v c" by simp
    have "weight_to_comm g v c q = Inr (direct_weight g IGRAPH_OUT (membership p) v c, q)"
      if "current_node_cache_community_to q = v"
        and "cached_weight_to_community q = cached_weight_to_community p1" for q
      using that c len f(6) d by (simp add: weight_to_comm_warm)
    with 1 show ?thesis by blast
  qed
  from f(1-5) q show "\<exists>p1. caches_ok g p1 \<and> membership p1 = membership p \<and>
             current_node_cache_community_to p1 = v \<and>
             current_node_cache_community_from p1 = current_node_cache_community_from p \<and>
             cached_weight_from_community p1 = cached_weight_from_community p \<and>
             (\<forall>c < vcount g.
                weight_to_comm g v c p =
                  Inr (direct_weight g IGRAPH_OUT (membership p) v c, p1) \<and>
                (\<forall>q. current_node_cache_community_to q = v \<and>
                     cached_weight_to_community q = cached_weight_to_community p1 \<longrightarrow>
                     weight_to_comm g v c q =
                       Inr (direct_weight g IGRAPH_OUT (membership p) v c, q)))"
    by blast
next
  assume cold: "current_node_cache_community_from p \<noteq> v"
  from assms(3) have c: "cache_ok (vcount g) (cached_weight_from_community p) (cached_neigh_comms_from p)"
    by (simp add: caches_ok_def)
  from weight_from_comm_cold_warm [OF assms(1,2) c cold]
  obtain cw' ns' where r: "cache_ok (vcount g) cw' ns'"
    "\<forall>c < vcount g.
              weight_from_comm g v c p =
                Inr (direct_weight g IGRAPH_IN (membership p) v c,
                     p\<lparr>cached_weight_from_community := cw', cached_neigh_comms_from := ns',
                       current_node_cache_community_from := v\<rparr>) \<and>
              weight_from_comm g v c
                  (p\<lparr>cached_weight_from_community := cw', cached_neigh_comms_from := ns',
                     current_node_cache_community_from := v\<rparr>) =
                Inr (direct_weight g IGRAPH_IN (membership p) v c,
                     p\<lparr>cached_weight_from_community := cw', cached_neigh_comms_from := ns',
                       current_node_cache_community_from := v\<rparr>)"
    by blast
  define p1 where "p1 = p\<lparr>cached_weight_from_community := cw', cached_neigh_comms_from := ns',
                       current_node_cache_community_from := v\<rparr>"
  have f: "caches_ok g p1" "membership p1 = membership p"
    "current_node_cache_community_from p1 = v"
    "current_node_cache_community_to p1 = current_node_cache_community_to p"
    "cached_weight_to_community p1 = cached_weight_to_community p"
    "cached_weight_from_community p1 = cw'"
    using assms(3) r(1) by (simp_all add: caches_ok_def p1_def)
  have len: "length cw' = vcount g" using r(1) by (simp add: cache_ok_def)
  have q: "weight_from_comm g v c p = Inr (direct_weight g IGRAPH_IN (membership p) v c, p1) \<and>
      (\<forall>q. current_node_cache_community_from q = v \<and>
           cached_weight_from_community q = cached_weight_from_community p1 \<longrightarrow>
           weight_from_comm g v c q = Inr (direct_weight g IGRAPH_IN (membership p) v c, q))"
    if c: "c < vcount g" for c
  proof -
    from r(2) c have 1: "weight_from_comm g v c p =
        Inr (direct_weight g IGRAPH_IN (membership p) v c, p1)"
      and 2: "weight_from_comm g v c p1 =
        Inr (direct_weight g IGRAPH_IN (membership p) v c, p1)"
      unfolding p1_def by blast+
    have "weight_from_comm g v c p1 = Inr (cw' ! c, p1)"
      using c len f(3,6) by (simp add: weight_from_comm_warm)
    with 2 have d: "cw' ! c = direct_weight g IGRAPH_IN (membership p) v c" by simp
    have "weight_from_comm g v c q = Inr (direct_weight g IGRAPH_IN (membership p) v c, q)"
      if "current_node_cache_community_from q = v"
        and "cached_weight_from_community q = cached_weight_from_community p1" for q
      using that c len f(6) d by (simp add: weight_from_comm_warm)
    with 1 show ?thesis by blast
  qed
  from f(1-5) q show "\<exists>p1. caches_ok g p1 \<and> membership p1 = membership p \<and>
             current_node_cache_community_from p1 = v \<and>
             current_node_cache_community_to p1 = current_node_cache_community_to p \<and>
             cached_weight_to_community p1 = cached_weight_to_community p \<and>
             (\<forall>c < vcount g.
                weight_from_comm g v c p =
                  Inr (direct_weight g IGRAPH_IN (membership p) v c, p1) \<and>
                (\<forall>q. current_node_cache_community_from q = v \<and>
                     cached_weight_from_community q = cached_weight_from_community p1 \<longrightarrow>
                     weight_from_comm g v c q =
                       Inr (direct_weight g IGRAPH_IN (membership p) v c, q)))"
    by blast
qed

theorem C9_cache_witness:
  "graph_ok ex_loop \<and>
   (\<exists>p p1 p2. create_singletons ex_loop = Inr p \<and>
      ids_below_vcount ex_loop p \<and> caches_ok ex_loop p \<and>
      current_node_cache_community_to p \<noteq> 0 \<and>
      weight_to_comm ex_loop 0 0 p = Inr (2, p1) \<and>
      weight_to_comm ex_loop 0 1 p = Inr (3, p1) \<and>
      weight_to_comm ex_loop 0 0 p1 = Inr (2, p1) \<and>
      current_node_cache_community_from p1 \<noteq> 0 \<and>
      weight_from_comm ex_loop 0 0 p1 = Inr (2, p2) \<and>
      weight_from_comm ex_loop 0 0 p2 = Inr (2, p2) \<and>
      weight_to_comm ex_loop 0 1 p2 = Inr (3, p2))"
proof -
  let ?P = "init_admin_body ex_loop (fresh\<lparr>membership := [0, 1]\<rparr>)"
  have m: "membership ?P = [0, 1]" by (simp add: init_admin_fields)
  have ids: "ids_below_vcount ex_loop ?P"
    unfolding ids_below_vcount_def m by (simp add: ex_loop_vcount less_2_cases_iff)
  have caches: "caches_ok ex_loop ?P"
    by (rule create_singletons_caches_ok [OF ex_loop_singletons])
  have cold: "current_node_cache_community_to ?P \<noteq> 0"
    "current_node_cache_community_from ?P \<noteq> 0"
    by (simp_all add: init_admin_cache)
  have c: "(0::nat) < vcount ex_loop" "(1::nat) < vcount ex_loop"
    by (simp_all add: ex_loop_vcount)
  from C9_cache [OF ex_loop_ok ids caches, of 0] cold(1)
  obtain p1 where p1: "caches_ok ex_loop p1" "membership p1 = membership ?P"
    "current_node_cache_community_to p1 = 0"
    "current_node_cache_community_from p1 = current_node_cache_community_from ?P"
    "\<forall>c < vcount ex_loop.
        weight_to_comm ex_loop 0 c ?P =
          Inr (direct_weight ex_loop IGRAPH_OUT (membership ?P) 0 c, p1) \<and>
        (\<forall>q. current_node_cache_community_to q = 0 \<and>
             cached_weight_to_community q = cached_weight_to_community p1 \<longrightarrow>
             weight_to_comm ex_loop 0 c q =
               Inr (direct_weight ex_loop IGRAPH_OUT (membership ?P) 0 c, q))"
    by blast
  note wt = p1(5) [unfolded m ex_loop_direct, rule_format]
  have t: "weight_to_comm ex_loop 0 0 ?P = Inr (2, p1)"
    "weight_to_comm ex_loop 0 1 ?P = Inr (3, p1)"
    using wt [OF c(1)] wt [OF c(2)] unfolding ex_loop_direct by blast+
  have t1: "weight_to_comm ex_loop 0 0 p1 = Inr (2, p1)"
    using wt [OF c(1)] p1(3) unfolding ex_loop_direct by blast
  have ids1: "ids_below_vcount ex_loop p1"
    using ids by (simp add: ids_below_vcount_def p1(2))
  have cold1: "current_node_cache_community_from p1 \<noteq> 0"
    using cold(2) by (simp add: p1(4))
  from C9_cache [OF ex_loop_ok ids1 p1(1), of 0] cold1
  obtain p2 where p2: "current_node_cache_community_from p2 = 0"
    "current_node_cache_community_to p2 = current_node_cache_community_to p1"
    "cached_weight_to_community p2 = cached_weight_to_community p1"
    "\<forall>c < vcount ex_loop.
        weight_from_comm ex_loop 0 c p1 =
          Inr (direct_weight ex_loop IGRAPH_IN (membership p1) 0 c, p2) \<and>
        (\<forall>q. current_node_cache_community_from q = 0 \<and>
             cached_weight_from_community q = cached_weight_from_community p2 \<longrightarrow>
             weight_from_comm ex_loop 0 c q =
               Inr (direct_weight ex_loop IGRAPH_IN (membership p1) 0 c, q))"
    by blast
  note wf = p2(4) [unfolded p1(2) m, rule_format, OF c(1)]
  have f: "weight_from_comm ex_loop 0 0 p1 = Inr (2, p2)"
    "weight_from_comm ex_loop 0 0 p2 = Inr (2, p2)"
    using wf p2(1) unfolding ex_loop_direct by blast+
  have t2: "weight_to_comm ex_loop 0 1 p2 = Inr (3, p2)"
    using wt [OF c(2)] p2(2,3) p1(3) unfolding ex_loop_direct by simp
  from ex_loop_ok ex_loop_singletons ids caches cold(1) t t1 cold1 f t2 show ?thesis by blast
qed

text \<open>
  C10 (as stated, false). The number of community slots is not capped at the vertex
  count: the constructor allocates one slot more than the largest id it is given. On the
  two-vertex example with membership \<open>[5, 0]\<close> there are 6 slots, community 5 is
  allocated, and \<^verbatim>\<open>weight_to_comm(0, 5)\<close> reads the two-entry cache vector out of
  bounds.
\<close>

theorem C10_counterexample:
  "vcount ex_graph = 2 \<and>
   map_sum id nb_communities (create ex_graph [5, 0]) = Inr 6 \<and>
   map_sum id (\<lambda>p. comm_allocated p 5) (create ex_graph [5, 0]) = Inr True \<and>
   and_then (create ex_graph [5, 0]) (weight_to_comm ex_graph 0 5) = Inl OutOfBounds"
proof -
  let ?p = "init_admin_body ex_graph (fresh\<lparr>membership := [5, 0]\<rparr>)"
  have c: "create ex_graph [5, 0] = Inr ?p"
    by (rule create_fits) (simp_all add: ex_graph_vcount less_2_cases_iff)
  have n: "count_comms [5, 0] 2 = 6"
    by (simp add: count_comms_def upt_0_2)
  have nb: "nb_communities ?p = 6"
    by (simp add: nb_communities_def init_admin_fields ex_graph_vcount n)
  have al: "comm_allocated ?p 5"
    by (simp add: comm_allocated_def init_admin_fields ex_graph_vcount n)
  have "\<not> (5::nat) < vcount ex_graph" by (simp add: ex_graph_vcount)
  from weight_to_comm_out_of_bounds [OF create_cache_lengths(1) [OF c] this]
  have w: "weight_to_comm ex_graph 0 5 ?p = Inl OutOfBounds" .
  show ?thesis
    unfolding c using nb al w by (simp add: and_then_def ex_graph_vcount)
qed

text \<open>
  C10 (amended). After construction the cache vectors have exactly as many entries as
  there are vertices, and every id of the supplied membership has a slot, however large
  it is. A state is safe when every community id in use is below the vertex count, the
  cache bookkeeping is intact and there are at most as many slots as vertices. The
  constructor yields a safe state when every id of the supplied membership is below the
  vertex count; \<^verbatim>\<open>move_node\<close> and an \<^verbatim>\<open>add_empty_community\<close> that returns (its result is
  an id below the vertex count) keep a state safe. In a safe state, on a graph whose
  adjacency lists name only vertices, the weight queries are defined exactly for \<open>c\<close>
  below the vertex count, so every allocated community id is a safe argument. An
  \<^verbatim>\<open>add_empty_community\<close> that throws does not keep the state safe: it throws
  \<open>CapacityExceeded\<close>, there were as many slots as vertices, and it leaves one slot more,
  whose id is allocated and is not a safe argument. \<^verbatim>\<open>csize\<close> returns 0 for every id
  beyond the allocated slots.
\<close>

theorem C10_bounds:
  "(create g m = Inr p \<longrightarrow>
      length (cached_weight_to_community p) = vcount g \<and>
      length (cached_weight_from_community p) = vcount g \<and>
      (\<forall>u < vcount g. m ! u < nb_communities p)) \<and>
   (create g m = Inr p \<and> (\<forall>u < vcount g. m ! u < vcount g) \<longrightarrow> safe_state g p) \<and>
   (safe_state g p \<and> move_node g v nc p = Inr p' \<longrightarrow> safe_state g p') \<and>
   (safe_state g p \<and> add_empty_community g p = (Inr nc, p') \<longrightarrow>
      safe_state g p' \<and> nc < vcount g) \<and>
   (safe_state g p \<and> add_empty_community g p = (Inl err, p') \<longrightarrow>
      err = CapacityExceeded \<and> nb_communities p = vcount g \<and>
      nb_communities p' = vcount g + 1 \<and> \<not> safe_state g p' \<and>
      weight_to_comm g v (vcount g) p' = Inl OutOfBounds \<and>
      weight_from_comm g v (vcount g) p' = Inl OutOfBounds) \<and>
   (safe_state g p \<and> graph_ok g \<longrightarrow>
      ((\<exists>r. weight_to_comm g v c p = Inr r) \<longleftrightarrow> c < vcount g) \<and>
      ((\<exists>r. weight_from_comm g v c p = Inr r) \<longleftrightarrow> c < vcount g) \<and>
      (c < nb_communities p \<longrightarrow> c < vcount g)) \<and>
   (\<not> c < length (csize_vec p) \<longrightarrow> csize p c = 0)"
proof (intro conjI impI)
  assume c: "create g m = Inr p"
  then show "length (cached_weight_to_community p) = vcount g"
    and "length (cached_weight_from_community p) = vcount g"
    by (rule create_cache_lengths)+
  show "\<forall>u < vcount g. m ! u < nb_communities p"
    using create_Inr(3) [OF c] unfolding create_Inr(2) [OF c]
    by (simp add: nb_communities_def init_admin_fields)
next
  assume "create g m = Inr p \<and> (\<forall>u < vcount g. m ! u < vcount g)"
  then show "safe_state g p" using create_safe by blast
next
  assume "safe_state g p \<and> move_node g v nc p = Inr p'"
  then show "safe_state g p'" using move_node_safe by blast
next
  assume a: "safe_state g p \<and> add_empty_community g p = (Inr nc, p')"
  then show "safe_state g p'" using add_empty_community_safe(1) by blast
  from a show "nc < vcount g" using add_empty_community_safe(2) by blast
next
  assume a: "safe_state g p \<and> add_empty_community g p = (Inl err, p')"
  then have s: "safe_state g p" and e: "add_empty_community g p = (Inl err, p')" by simp_all
  note i = add_empty_community_Inl [OF e]
  show "err = CapacityExceeded" by (rule i(1))
  show nb: "nb_communities p = vcount g"
    using s i(2) by (simp add: safe_state_def nb_communities_def)
  show nb': "nb_communities p' = vcount g + 1"
    using nb unfolding i(3) by (simp add: nb_communities_def)
  show "\<not> safe_state g p'" using nb' by (simp add: safe_state_def)
  have len: "length (cached_weight_to_community p') = vcount g"
    "length (cached_weight_from_community p') = vcount g"
    using s unfolding i(3) by (simp_all add: safe_state_def caches_ok_def cache_ok_def)
  show "weight_to_comm g v (vcount g) p' = Inl OutOfBounds"
    by (rule weight_to_comm_out_of_bounds [OF len(1)]) simp
  show "weight_from_comm g v (vcount g) p' = Inl OutOfBounds"
    by (rule weight_from_comm_out_of_bounds [OF len(2)]) simp
next
  assume a: "safe_state g p \<and> graph_ok g"
  then show "(\<exists>r. weight_to_comm g v c p = Inr r) \<longleftrightarrow> c < vcount g"
    using weight_to_comm_defined [of g p v c] by (simp add: safe_state_def)
  from a show "(\<exists>r. weight_from_comm g v c p = Inr r) \<longleftrightarrow> c < vcount g"
    using weight_from_comm_defined [of g p v c] by (simp add: safe_state_def)
  assume "c < nb_communities p"
  with a show "c < vcount g" by (simp add: safe_state_def)
next
  assume "\<not> c < length (csize_vec p)"
  then show "csize p c = 0" by (rule csize_beyond)
qed

theorem C10_bounds_witness:
  "create ex_graph [0, 1] = Inr ex_single \<and>
   length (cached_weight_to_community ex_single) = vcount ex_graph \<and>
   length (cached_weight_from_community ex_single) = vcount ex_graph \<and>
   safe_state ex_graph ex_single \<and> graph_ok ex_graph \<and>
   move_node ex_graph 0 1 ex_single = Inr ex_merged \<and>
   safe_state ex_graph ex_merged \<and>
   (\<exists>r. weight_to_comm ex_graph 0 1 ex_single = Inr r) \<and>
   (\<exists>r. weight_from_comm ex_graph 0 1 ex_single = Inr r) \<and>
   (1::nat) < nb_communities ex_single \<and> (1::nat) < vcount ex_graph \<and>
   \<not> 2 < length (csize_vec ex_single) \<and>
   csize ex_single 2 = 0 \<and>
   create ex_graph [0, 0] = Inr (init_admin_body ex_graph (fresh\<lparr>membership := [0, 0]\<rparr>)) \<and>
   safe_state ex_graph (init_admin_body ex_graph (fresh\<lparr>membership := [0, 0]\<rparr>)) \<and>
   fst (add_empty_community ex_graph (init_admin_body ex_graph (fresh\<lparr>membership := [0, 0]\<rparr>))) =
     Inr 1 \<and>
   safe_state ex_graph
     (snd (add_empty_community ex_graph (init_admin_body ex_graph (fresh\<lparr>membership := [0, 0]\<rparr>)))) \<and>
   fst (add_empty_community ex_graph ex_single) = Inl CapacityExceeded \<and>
   nb_communities (snd (add_empty_community ex_graph ex_single)) = vcount ex_graph + 1 \<and>
   \<not> safe_state ex_graph (snd (add_empty_community ex_graph ex_single)) \<and>
   weight_to_comm ex_graph 0 (vcount ex_graph) (snd (add_empty_community ex_graph ex_single)) =
     Inl OutOfBounds"
proof -
  let ?P = "ex_single"
  let ?Q = "init_admin_body ex_graph (fresh\<lparr>membership := [0, 0]\<rparr>)"
  let ?T = "snd (add_empty_community ex_graph ex_single)"
  note i1 = C10_bounds [where g = ex_graph and m = "[0, 1]" and p = ?P and v = 0 and nc = 1
      and p' = ex_merged and c = 1]
  note i2 = C10_bounds [where g = ex_graph and m = "[0, 0]" and p = ?Q and nc = 1
      and p' = "snd (add_empty_community ex_graph ?Q)"]
  note i3 = C10_bounds [where p = ?P and c = 2]
  note i4 = C10_bounds [where g = ex_graph and p = ?P and err = CapacityExceeded and p' = ?T
      and v = 0]
  have c1: "create ex_graph [0, 1] = Inr ?P" by (rule ex_create_singletons)
  have len: "length (cached_weight_to_community ?P) = vcount ex_graph"
    "length (cached_weight_from_community ?P) = vcount ex_graph"
    using i1 c1 by blast+
  have s1: "safe_state ex_graph ?P" using i1 c1 ex_below(1) by blast
  have s2: "safe_state ex_graph ex_merged" using i1 s1 ex_move_0_1 by blast
  have nb: "(1::nat) < nb_communities ?P"
    by (simp add: ex_single_def nb_communities_def)
  have w: "(\<exists>r. weight_to_comm ex_graph 0 1 ?P = Inr r)"
    "(\<exists>r. weight_from_comm ex_graph 0 1 ?P = Inr r)" "(1::nat) < vcount ex_graph"
    using i1 s1 ex_graph_ok nb by blast+
  have b: "\<not> 2 < length (csize_vec ?P)" by (simp add: ex_single_def)
  have z: "csize ?P 2 = 0" using i3 b by blast
  have c0: "create ex_graph [0, 0] = Inr ?Q" by (rule ex_pair_create)
  have s0: "safe_state ex_graph ?Q" using i2 c0 ex_below(2) by blast
  have a: "add_empty_community ex_graph ?Q = (Inr 1, snd (add_empty_community ex_graph ?Q))"
    using ex_pair_add by (metis prod.collapse)
  have s3: "safe_state ex_graph (snd (add_empty_community ex_graph ?Q))"
    using i2 s0 a by blast
  have t: "fst (add_empty_community ex_graph ex_single) = Inl CapacityExceeded"
    by (simp add: add_empty_community_def ex_single_def ex_graph_vcount Let_def)
  then have t': "add_empty_community ex_graph ex_single = (Inl CapacityExceeded, ?T)"
    by (metis prod.collapse)
  have t4: "nb_communities ?T = vcount ex_graph + 1" "\<not> safe_state ex_graph ?T"
    "weight_to_comm ex_graph 0 (vcount ex_graph) ?T = Inl OutOfBounds"
    using i4 s1 t' by blast+
  from c1 len s1 ex_graph_ok ex_move_0_1 s2 w nb b z c0 s0 ex_pair_add s3 t t4
  show ?thesis by blast
qed

end
